theory Spec2Isabelle
  imports Complex_Main "HOL-Library.Monad_Syntax"
begin

section \<open>Tensors\<close>

text \<open>
  The source computes on \<^verbatim>\<open>torch\<close> tensors. A tensor is modelled as a nested list of
  real numbers: \<open>Sc a\<close> is the 0-dimensional tensor holding \<open>a\<close>, and \<open>Tn ts\<close> stacks the
  tensors \<open>ts\<close> along a new first dimension. Floating-point numbers are idealised as reals.
  A library call that raises in \<^verbatim>\<open>torch\<close> (a shape mismatch, a dimension out of range)
  returns \<open>None\<close>. \<open>Tn []\<close> is the tensor of shape \<open>(0)\<close>; of a tensor with an empty
  dimension the model keeps the dimensions up to the first empty one only.
\<close>

datatype tensor = Sc real | Tn "tensor list"

fun children :: "tensor \<Rightarrow> tensor list" where
  "children (Sc a) = []"
| "children (Tn ts) = ts"

fun is_Tn :: "tensor \<Rightarrow> bool" where
  "is_Tn (Sc a) = False"
| "is_Tn (Tn ts) = True"

text \<open>\<^verbatim>\<open>x.dim()\<close> and \<^verbatim>\<open>x.shape\<close>, read along the first element of every level.\<close>

fun dim :: "tensor \<Rightarrow> nat" where
  "dim (Sc a) = 0"
| "dim (Tn []) = 1"
| "dim (Tn (t # ts)) = Suc (dim t)"

fun shape :: "tensor \<Rightarrow> nat list" where
  "shape (Sc a) = []"
| "shape (Tn []) = [0]"
| "shape (Tn (t # ts)) = Suc (length ts) # shape t"

text \<open>A nested list is a tensor when the elements of every level have one shape.\<close>

fun regular :: "tensor \<Rightarrow> bool" where
  "regular (Sc a) = True"
| "regular (Tn ts) = list_all (\<lambda>t. regular t \<and> shape t = shape (hd ts)) ts"

fun tmap :: "(real \<Rightarrow> real) \<Rightarrow> tensor \<Rightarrow> tensor" where
  "tmap f (Sc a) = Sc (f a)"
| "tmap f (Tn ts) = Tn (map (tmap f) ts)"

text \<open>All entries of a tensor, in row-major order; \<^verbatim>\<open>x.sum()\<close> adds them up.\<close>

fun entries :: "tensor \<Rightarrow> real list" where
  "entries (Sc a) = [a]"
| "entries (Tn ts) = concat (map entries ts)"

definition tsum :: "tensor \<Rightarrow> tensor" where
  "tsum x = Sc (sum_list (entries x))"

definition zeros_like :: "tensor \<Rightarrow> tensor" where
  "zeros_like x = tmap (\<lambda>a. 0) x"

definition ones_like :: "tensor \<Rightarrow> tensor" where
  "ones_like x = tmap (\<lambda>a. 1) x"

definition neg :: "tensor \<Rightarrow> tensor" where
  "neg x = tmap uminus x"

subsection \<open>Elementwise operations with broadcasting\<close>

text \<open>
  \<^verbatim>\<open>a + b\<close>, \<^verbatim>\<open>a - b\<close>, \<^verbatim>\<open>a * b\<close>, \<^verbatim>\<open>a / b\<close>: the shapes are aligned at their last
  dimension; a dimension of one side that is missing or of size 1 is repeated, and any
  other difference of sizes raises. A Python number is a 0-dimensional operand.
\<close>

function (sequential) broadcast :: "(real \<Rightarrow> real \<Rightarrow> real) \<Rightarrow> tensor \<Rightarrow> tensor \<Rightarrow> tensor option" where
  "broadcast f (Sc a) (Sc b) = Some (Sc (f a b))"
| "broadcast f (Sc a) (Tn bs) = Some (tmap (f a) (Tn bs))"
| "broadcast f (Tn as) (Sc b) = Some (tmap (\<lambda>a. f a b) (Tn as))"
| "broadcast f (Tn as) (Tn bs) =
     (if dim (Tn as) < dim (Tn bs) then
        map_option Tn (those (map (\<lambda>b. broadcast f (Tn as) b) bs))
      else if dim (Tn bs) < dim (Tn as) then
        map_option Tn (those (map (\<lambda>a. broadcast f a (Tn bs)) as))
      else if length as = length bs then
        map_option Tn (those (map (\<lambda>(a, b). broadcast f a b) (zip as bs)))
      else if length as = 1 then
        map_option Tn (those (map (\<lambda>b. broadcast f (hd as) b) bs))
      else if length bs = 1 then
        map_option Tn (those (map (\<lambda>a. broadcast f a (hd bs)) as))
      else None)"
  by pat_completeness auto

lemma size_child: "t \<in> set ts \<Longrightarrow> size t < size (Tn ts)"
  by (induction ts) auto

termination broadcast
proof (relation "measure (\<lambda>(f, a, b). size a + size b)", goal_cases)
  case 1
  show ?case by simp
next
  case (2 f as bs x)
  then show ?case using size_child [of x bs] by simp
next
  case (3 f as bs x)
  then show ?case using size_child [of x as] by simp
next
  case (4 f as bs z x y)
  then have "x \<in> set as" and "y \<in> set bs"
    by (auto dest: set_zip_leftD set_zip_rightD)
  then show ?case using size_child [of x as] size_child [of y bs] by simp
next
  case (5 f as bs x)
  then have "hd as \<in> set as" by (cases as) auto
  then show ?case using 5 size_child [of x bs] size_child [of "hd as" as] by simp
next
  case (6 f as bs x)
  then have "hd bs \<in> set bs" by (cases bs) auto
  then show ?case using 6 size_child [of x as] size_child [of "hd bs" bs] by simp
qed

definition add :: "tensor \<Rightarrow> tensor \<Rightarrow> tensor option" where
  "add = broadcast (+)"

definition sub :: "tensor \<Rightarrow> tensor \<Rightarrow> tensor option" where
  "sub = broadcast (-)"

definition mul :: "tensor \<Rightarrow> tensor \<Rightarrow> tensor option" where
  "mul = broadcast (*)"

definition div_t :: "tensor \<Rightarrow> tensor \<Rightarrow> tensor option" where
  "div_t = broadcast (/)"

subsection \<open>Shape operations\<close>

text \<open>\<^verbatim>\<open>x.shape[0]\<close> and \<^verbatim>\<open>len(x)\<close>: a 0-dimensional tensor has neither.\<close>

fun shape0 :: "tensor \<Rightarrow> nat option" where
  "shape0 (Sc a) = None"
| "shape0 (Tn ts) = Some (length ts)"

text \<open>\<^verbatim>\<open>x[i]\<close> for \<open>0 \<le> i\<close>.\<close>

fun index :: "tensor \<Rightarrow> nat \<Rightarrow> tensor option" where
  "index (Sc a) i = None"
| "index (Tn ts) i = (if i < length ts then Some (ts ! i) else None)"

text \<open>
  \<^verbatim>\<open>torch.squeeze(x)\<close> drops every dimension of size 1;
  \<^verbatim>\<open>torch.unsqueeze(x, k)\<close> inserts one at position \<open>k \<le> x.dim()\<close>.
\<close>

fun squeeze :: "tensor \<Rightarrow> tensor" where
  "squeeze (Sc a) = Sc a"
| "squeeze (Tn [t]) = squeeze t"
| "squeeze (Tn ts) = Tn (map squeeze ts)"

fun unsqueeze :: "nat \<Rightarrow> tensor \<Rightarrow> tensor option" where
  "unsqueeze 0 x = Some (Tn [x])"
| "unsqueeze (Suc k) (Sc a) = None"
| "unsqueeze (Suc k) (Tn ts) = map_option Tn (those (map (unsqueeze k) ts))"

text \<open>
  Exchanging the first two dimensions of a tensor with at least two: the rows of the
  result are the columns of the argument. \<^verbatim>\<open>x.t()\<close> is this on a 2-dimensional tensor,
  the identity below two dimensions and an error above; \<^verbatim>\<open>torch.transpose(x, 1, 2)\<close>
  is this on every element along the first dimension.
\<close>

definition swap01 :: "tensor \<Rightarrow> tensor option" where
  "swap01 x =
     (if 2 \<le> dim x \<and> list_all (\<lambda>r. is_Tn r \<and> length (children r) = length (children (hd (children x)))) (children x)
      then Some (Tn (map Tn (transpose (map children (children x)))))
      else None)"

definition torch_t :: "tensor \<Rightarrow> tensor option" where
  "torch_t x = (if dim x < 2 then Some x else if dim x = 2 then swap01 x else None)"

definition transpose12 :: "tensor \<Rightarrow> tensor option" where
  "transpose12 x =
     (if 3 \<le> dim x then map_option Tn (those (map swap01 (children x))) else None)"

text \<open>
  \<^verbatim>\<open>torch.cat([a, b])\<close> joins along the first dimension and \<^verbatim>\<open>torch.cat((a, b), dim=1)\<close>
  along the second; the other dimensions must agree. An operand whose first dimension is
  empty, such as the slice \<^verbatim>\<open>M[:0]\<close>, adds nothing: the result is the other operand.
\<close>

definition cat0 :: "tensor \<Rightarrow> tensor \<Rightarrow> tensor option" where
  "cat0 a b =
     (if a = Tn [] \<and> is_Tn b then Some b
      else if b = Tn [] \<and> is_Tn a then Some a
      else if 1 \<le> dim a \<and> dim a = dim b \<and> tl (shape a) = tl (shape b)
      then Some (Tn (children a @ children b)) else None)"

definition cat1 :: "tensor \<Rightarrow> tensor \<Rightarrow> tensor option" where
  "cat1 a b =
     (if 2 \<le> dim a \<and> dim a = dim b \<and> length (children a) = length (children b)
      then map_option Tn (those (map (\<lambda>(r, s). cat0 r s) (zip (children a) (children b))))
      else None)"

text \<open>
  \<^verbatim>\<open>q, p = torch.chunk(x, 2, dim=1)\<close>: the second dimension, of size \<open>k\<close>, is cut after
  \<open>(k + 1) div 2\<close> entries. For \<open>k = 1\<close> there is one chunk only and the unpacking
  raises; for \<open>k = 0\<close> there are two empty chunks. The dimension must exist.
\<close>

definition chunk2 :: "tensor \<Rightarrow> (tensor \<times> tensor) option" where
  "chunk2 x =
     (let k = length (children (hd (children x))) in
      if 2 \<le> dim x \<and> k \<noteq> 1 \<and> list_all (\<lambda>r. length (children r) = k) (children x)
      then Some (Tn (map (\<lambda>r. Tn (take ((k + 1) div 2) (children r))) (children x)),
                 Tn (map (\<lambda>r. Tn (drop ((k + 1) div 2) (children r))) (children x)))
      else None)"

text \<open>\<^verbatim>\<open>torch.stack(ts, dim=1)\<close> of a non-empty list of tensors of one shape.\<close>

definition stack1 :: "tensor list \<Rightarrow> tensor option" where
  "stack1 ts =
     (if ts \<noteq> [] \<and> list_all (\<lambda>t. shape t = shape (hd ts)) ts then swap01 (Tn ts) else None)"

text \<open>\<^verbatim>\<open>x.sum(0)\<close>: the elements along the first dimension, added up entry by entry.\<close>

function (sequential) add_same :: "tensor \<Rightarrow> tensor \<Rightarrow> tensor" where
  "add_same (Sc a) (Sc b) = Sc (a + b)"
| "add_same (Tn as) (Tn bs) = Tn (map (\<lambda>(a, b). add_same a b) (zip as bs))"
| "add_same a b = a"
  by pat_completeness auto

termination add_same
proof (relation "measure (\<lambda>(a, b). size a)", goal_cases)
  case 1
  show ?case by simp
next
  case (2 as bs z x y)
  then have "x \<in> set as" by (auto dest: set_zip_leftD)
  then show ?case using size_child [of x as] by simp
qed

fun sum0 :: "tensor \<Rightarrow> tensor" where
  "sum0 (Sc a) = Sc a"
| "sum0 (Tn []) = Sc 0"
| "sum0 (Tn (t # ts)) = foldl add_same t ts"

text \<open>
  \<^verbatim>\<open>torch.eye(n)\<close>, \<^verbatim>\<open>torch.ones(n, n)\<close>, \<^verbatim>\<open>torch.diag_embed(v)\<close> of a 1-dimensional \<open>v\<close>
  and \<^verbatim>\<open>x.repeat(bs, 1, 1)\<close> of a 3-dimensional \<open>x\<close>.
\<close>

definition eye :: "nat \<Rightarrow> tensor" where
  "eye n = Tn (map (\<lambda>i. Tn (map (\<lambda>j. Sc (if i = j then 1 else 0)) [0..<n])) [0..<n])"

definition ones :: "nat \<Rightarrow> nat \<Rightarrow> tensor" where
  "ones n m = Tn (replicate n (Tn (replicate m (Sc 1))))"

definition diag_embed :: "tensor \<Rightarrow> tensor option" where
  "diag_embed v =
     (if dim v = 1 \<and> list_all (\<lambda>e. \<not> is_Tn e) (children v)
      then Some (Tn (map (\<lambda>i. Tn (map (\<lambda>j. if i = j then children v ! i else Sc 0)
                                   [0..<length (children v)])) [0..<length (children v)]))
      else None)"

definition repeat3 :: "nat \<Rightarrow> tensor \<Rightarrow> tensor option" where
  "repeat3 bs x = (if dim x = 3 then Some (Tn (concat (replicate bs (children x)))) else None)"

subsection \<open>Matrix products\<close>

text \<open>Vectors and matrices of reals, read from and written to tensors.\<close>

fun item :: "tensor \<Rightarrow> real option" where
  "item (Sc a) = Some a"
| "item (Tn ts) = None"

fun to_vec :: "tensor \<Rightarrow> real list option" where
  "to_vec (Sc a) = None"
| "to_vec (Tn ts) = those (map item ts)"

fun to_mat :: "tensor \<Rightarrow> real list list option" where
  "to_mat (Sc a) = None"
| "to_mat (Tn ts) =
     do {
       rows \<leftarrow> those (map to_vec ts);
       if rows \<noteq> [] \<and> list_all (\<lambda>r. length r = length (hd rows)) rows then Some rows else None
     }"

definition of_vec :: "real list \<Rightarrow> tensor" where
  "of_vec v = Tn (map Sc v)"

definition of_mat :: "real list list \<Rightarrow> tensor" where
  "of_mat m = Tn (map of_vec m)"

definition dot :: "real list \<Rightarrow> real list \<Rightarrow> real" where
  "dot u v = sum_list (map (\<lambda>(a, b). a * b) (zip u v))"

definition mv :: "real list list \<Rightarrow> real list \<Rightarrow> real list" where
  "mv A v = map (\<lambda>r. dot r v) A"

definition vm :: "real list \<Rightarrow> real list list \<Rightarrow> real list" where
  "vm u B = map (dot u) (transpose B)"

definition mm :: "real list list \<Rightarrow> real list list \<Rightarrow> real list list" where
  "mm A B = map (\<lambda>r. vm r B) A"

text \<open>
  \<^verbatim>\<open>torch.matmul\<close> of two tensors of one or two dimensions: the dot product, the
  matrix-vector products and the matrix product; the inner sizes must agree.
\<close>

definition matmul2 :: "tensor \<Rightarrow> tensor \<Rightarrow> tensor option" where
  "matmul2 a b =
     (if dim a = 1 \<and> dim b = 1 then
        do { u \<leftarrow> to_vec a; v \<leftarrow> to_vec b;
             if length u = length v then Some (Sc (dot u v)) else None }
      else if dim a = 2 \<and> dim b = 2 then
        do { A \<leftarrow> to_mat a; B \<leftarrow> to_mat b;
             if length (hd A) = length B then Some (of_mat (mm A B)) else None }
      else if dim a = 1 \<and> dim b = 2 then
        do { u \<leftarrow> to_vec a; B \<leftarrow> to_mat b;
             if length u = length B then Some (of_vec (vm u B)) else None }
      else if dim a = 2 \<and> dim b = 1 then
        do { A \<leftarrow> to_mat a; v \<leftarrow> to_vec b;
             if length (hd A) = length v then Some (of_vec (mv A v)) else None }
      else None)"

text \<open>
  \<^verbatim>\<open>torch.matmul\<close> in general: with more than two dimensions on a side, the leading
  dimensions are batch dimensions, broadcast like those of an elementwise operation, and
  the product is taken batch element by batch element. A 0-dimensional operand raises.
\<close>

function (sequential) matmul :: "tensor \<Rightarrow> tensor \<Rightarrow> tensor option" where
  "matmul (Sc a) b = None"
| "matmul a (Sc b) = None"
| "matmul (Tn as) (Tn bs) =
     (if dim (Tn as) \<le> 2 \<and> dim (Tn bs) \<le> 2 then matmul2 (Tn as) (Tn bs)
      else if dim (Tn bs) < dim (Tn as) then
        map_option Tn (those (map (\<lambda>a. matmul a (Tn bs)) as))
      else if dim (Tn as) < dim (Tn bs) then
        map_option Tn (those (map (\<lambda>b. matmul (Tn as) b) bs))
      else if length as = length bs then
        map_option Tn (those (map (\<lambda>(a, b). matmul a b) (zip as bs)))
      else if length as = 1 then
        map_option Tn (those (map (\<lambda>b. matmul (hd as) b) bs))
      else if length bs = 1 then
        map_option Tn (those (map (\<lambda>a. matmul a (hd bs)) as))
      else None)"
  by pat_completeness auto

termination matmul
proof (relation "measure (\<lambda>(a, b). size a + size b)", goal_cases)
  case 1
  show ?case by simp
next
  case (2 as bs x)
  then show ?case using size_child [of x as] by simp
next
  case (3 as bs x)
  then show ?case using size_child [of x bs] by simp
next
  case (4 as bs z x y)
  then have "x \<in> set as" and "y \<in> set bs"
    by (auto dest: set_zip_leftD set_zip_rightD)
  then show ?case using size_child [of x as] size_child [of y bs] by simp
next
  case (5 as bs x)
  then have "hd as \<in> set as" by (cases as) auto
  then show ?case using 5 size_child [of x bs] size_child [of "hd as" as] by simp
next
  case (6 as bs x)
  then have "hd bs \<in> set bs" by (cases bs) auto
  then show ?case using 6 size_child [of x as] size_child [of "hd bs" bs] by simp
qed

section \<open>What the modules are given\<close>

text \<open>
  The sub-networks (\<^verbatim>\<open>MLP\<close> of \<^verbatim>\<open>nn_models\<close>) are not part of the source: a network is
  any function from tensors to tensors that may raise.

  \<^verbatim>\<open>torch.autograd.grad(y, x, create_graph=True)[0]\<close> differentiates the scalar \<open>y\<close>
  with respect to the tensor \<open>x\<close> along the computation that produced \<open>y\<close> from \<open>x\<close>.
  A shallow embedding has no computation graph, so the operator is a parameter \<open>grad\<close>
  of the methods that call it, and it is given that computation as a function:
  \<open>grad f x\<close> stands for \<^verbatim>\<open>torch.autograd.grad(f(x), x, create_graph=True)[0]\<close>.
  \<^verbatim>\<open>torch.inverse\<close> is a parameter \<open>torch_inverse\<close> in the same way.
\<close>

type_synonym net = "tensor \<Rightarrow> tensor option"

type_synonym autograd = "(tensor \<Rightarrow> tensor option) \<Rightarrow> tensor \<Rightarrow> tensor option"

section \<open>The attributes shared by the three classes\<close>

text \<open>
  Every class sets \<^verbatim>\<open>self.assume_canonical_coords\<close>, \<^verbatim>\<open>self.device\<close>, \<^verbatim>\<open>self.M\<close> and
  \<^verbatim>\<open>self.nfe\<close>. A method takes the module and returns it with its result; a result
  \<open>None\<close> is a raised exception.
\<close>

record torch_module =
  assume_canonical_coords :: bool
  device :: string
  M :: tensor
  nfe :: int

text \<open>
  The steps of the branch that builds the Levi-Civita tensor: \<^verbatim>\<open>M[::2] *= -1\<close>,
  \<^verbatim>\<open>M[:,::2] *= -1\<close>, and \<^verbatim>\<open>M[i,j] *= -1\<close> for every \<open>i < j < n\<close>, in the order of the
  two loops.
\<close>

definition scale_even :: "tensor list \<Rightarrow> tensor list" where
  "scale_even ts = map (\<lambda>(i, t). if even i then tmap (\<lambda>a. a * (- 1)) t else t) (enumerate 0 ts)"

definition scale_even_rows :: "tensor \<Rightarrow> tensor" where
  "scale_even_rows x = Tn (scale_even (children x))"

definition scale_even_cols :: "tensor \<Rightarrow> tensor" where
  "scale_even_cols x = Tn (map (\<lambda>r. Tn (scale_even (children r))) (children x))"

definition scale_at :: "nat \<Rightarrow> nat \<Rightarrow> tensor \<Rightarrow> tensor" where
  "scale_at i j x =
     Tn ((children x)[i := Tn ((children (children x ! i))[j :=
           tmap (\<lambda>a. a * (- 1)) (children (children x ! i) ! j)])])"

definition make_asymmetric :: "nat \<Rightarrow> tensor \<Rightarrow> tensor" where
  "make_asymmetric n x = foldl (\<lambda>y i. foldl (\<lambda>z j. scale_at i j z) y [i + 1..<n]) x [0..<n]"

text \<open>
  \<^verbatim>\<open>permutation_tensor(self, n)\<close>, written three times in the source with the same text.
  \<^verbatim>\<open>torch.eye\<close> and \<^verbatim>\<open>torch.ones\<close> raise on a negative size; \<^verbatim>\<open>.to(self.device)\<close>
  keeps the values.
\<close>

definition permutation_tensor ::
  "'a torch_module_scheme \<Rightarrow> int \<Rightarrow> tensor option \<times> 'a torch_module_scheme" where
  "permutation_tensor self n =
     (if assume_canonical_coords self then
        (if n < 0 then None
         else cat0 (Tn (drop (nat (n div 2)) (children (eye (nat n)))))
                   (neg (Tn (take (nat (n div 2)) (children (eye (nat n)))))),
         self)
      else
        (if n < 0 then None
         else do {
           E \<leftarrow> sub (Sc 1) (eye (nat n));
           M1 \<leftarrow> mul (ones (nat n) (nat n)) E;
           Some (make_asymmetric (nat n) (scale_even_cols (scale_even_rows M1)))
         },
         self))"

section \<open>The class \<^verbatim>\<open>HNN\<close>\<close>

text \<open>
  \<^verbatim>\<open>self.dampNet\<close> is set only when \<^verbatim>\<open>damp\<close> holds, and the default of the argument
  is \<^verbatim>\<open>None\<close>: \<open>dampNet self = None\<close> covers both, since calling either raises.
\<close>

record HNN = torch_module +
  baseline :: bool
  differentiale_model :: net
  damp :: bool
  dampNet :: "net option"

definition HNN_init ::
  "int \<Rightarrow> net \<Rightarrow> string \<Rightarrow> bool \<Rightarrow> bool \<Rightarrow> bool \<Rightarrow> net option \<Rightarrow> HNN option" where
  "HNN_init input_dim differentiale_model' device' baseline' assume_canonical_coords' damp' dampNet' =
     (let self = \<lparr> assume_canonical_coords = assume_canonical_coords', device = device',
                    M = Tn [], nfe = 0, baseline = baseline',
                    differentiale_model = differentiale_model', damp = False, dampNet = None \<rparr>;
          (P, self) = permutation_tensor self input_dim
      in do {
        P' \<leftarrow> P;
        Some (self \<lparr> M := P', nfe := 0, damp := damp',
                     dampNet := (if damp' then dampNet' else None) \<rparr>)
      })"

definition HNN_forward :: "HNN \<Rightarrow> tensor \<Rightarrow> tensor option \<times> HNN" where
  "HNN_forward self x =
     (if baseline self then (differentiale_model self x, self)
      else (let y = differentiale_model self x in (y, self)))"

text \<open>
  The scalar that \<^verbatim>\<open>time_derivative\<close> and \<^verbatim>\<open>Hamiltonian_vector\<close> differentiate,
  \<^verbatim>\<open>self.forward(x).sum()\<close>, as a function of \<open>x\<close>.
\<close>

definition HNN_H_sum :: "HNN \<Rightarrow> tensor \<Rightarrow> tensor option" where
  "HNN_H_sum self x = map_option tsum (fst (HNN_forward self x))"

definition HNN_time_derivative :: "autograd \<Rightarrow> HNN \<Rightarrow> 't \<Rightarrow> tensor \<Rightarrow> tensor option \<times> HNN" where
  "HNN_time_derivative grad self t x =
     (let self = self \<lparr> nfe := nfe self + 1 \<rparr> in
      if baseline self then (differentiale_model self x, self)
      else
        (let (H, self) = HNN_forward self x in
         (do {
            H' \<leftarrow> H;
            dH \<leftarrow> grad (HNN_H_sum self) x;
            Mt \<leftarrow> torch_t (M self);
            H_vector_field \<leftarrow> matmul dH Mt;
            if \<not> damp self then Some H_vector_field
            else do {
              dampNet' \<leftarrow> dampNet self;
              D \<leftarrow> dampNet' x;
              dH1 \<leftarrow> unsqueeze 1 dH;
              DH \<leftarrow> matmul dH1 D;
              sub H_vector_field (squeeze DH)
            }
          }, self)))"

definition HNN_Hamiltonian_vector :: "autograd \<Rightarrow> HNN \<Rightarrow> tensor \<Rightarrow> tensor option \<times> HNN" where
  "HNN_Hamiltonian_vector grad self x =
     (let (H, self) = HNN_forward self x in
      (do {
         H' \<leftarrow> H;
         dH \<leftarrow> grad (HNN_H_sum self) x;
         Mt \<leftarrow> torch_t (M self);
         matmul dH Mt
       }, self))"

section \<open>The class \<^verbatim>\<open>HNN_structure\<close>\<close>

record HNN_structure = torch_module +
  L_net :: net
  V_net :: net

definition HNN_structure_init ::
  "int \<Rightarrow> net \<Rightarrow> net \<Rightarrow> string \<Rightarrow> bool \<Rightarrow> HNN_structure option" where
  "HNN_structure_init input_dim L_net' V_net' device' assume_canonical_coords' =
     (let self = \<lparr> assume_canonical_coords = assume_canonical_coords', device = device',
                    M = Tn [], nfe = 0, L_net = L_net', V_net = V_net' \<rparr>;
          (P, self) = permutation_tensor self input_dim
      in do {
        P' \<leftarrow> P;
        Some (self \<lparr> M := P', nfe := 0 \<rparr>)
      })"

text \<open>The line \<^verbatim>\<open>M_q = L * L + 0.1\<close> and the line \<^verbatim>\<open>H = p * p / M_q /2 + V_q\<close>.\<close>

definition M_q_of :: "tensor \<Rightarrow> tensor option" where
  "M_q_of L = do { LL \<leftarrow> mul L L; add LL (Sc 0.1) }"

definition H_of :: "tensor \<Rightarrow> tensor \<Rightarrow> tensor \<Rightarrow> tensor option" where
  "H_of p M_q V_q =
     do { pp \<leftarrow> mul p p; ppM \<leftarrow> div_t pp M_q; kin \<leftarrow> div_t ppM (Sc 2); add kin V_q }"

definition HNN_structure_forward :: "HNN_structure \<Rightarrow> tensor \<Rightarrow> tensor option \<times> HNN_structure" where
  "HNN_structure_forward self x =
     (do {
        (q, p) \<leftarrow> chunk2 x;
        L \<leftarrow> L_net self q;
        V_q \<leftarrow> V_net self q;
        M_q \<leftarrow> M_q_of L;
        H_of p M_q V_q
      }, self)"

definition HNN_structure_H_sum :: "HNN_structure \<Rightarrow> tensor \<Rightarrow> tensor option" where
  "HNN_structure_H_sum self x = map_option tsum (fst (HNN_structure_forward self x))"

definition HNN_structure_time_derivative ::
  "autograd \<Rightarrow> HNN_structure \<Rightarrow> 't \<Rightarrow> tensor \<Rightarrow> tensor option \<times> HNN_structure" where
  "HNN_structure_time_derivative grad self t x =
     (let self = self \<lparr> nfe := nfe self + 1 \<rparr>;
          (H, self) = HNN_structure_forward self x in
      (do {
         H' \<leftarrow> H;
         dH \<leftarrow> grad (HNN_structure_H_sum self) x;
         Mt \<leftarrow> torch_t (M self);
         matmul dH Mt
       }, self))"

text \<open>
  The Hamiltonian of \<^verbatim>\<open>HNN_structure\<close> as the specification words it: the kinetic term
  \<open>p * p / (2 * (L_net(q) * L_net(q) + 0.1))\<close> plus the potential term \<open>V_net(q)\<close>.
\<close>

definition kinetic_spec :: "tensor \<Rightarrow> tensor \<Rightarrow> tensor option" where
  "kinetic_spec pp mass = do { den \<leftarrow> mul (Sc 2) mass; div_t pp den }"

definition HNN_structure_forward_spec :: "HNN_structure \<Rightarrow> tensor \<Rightarrow> tensor option" where
  "HNN_structure_forward_spec self x =
     do {
       (q, p) \<leftarrow> chunk2 x;
       L \<leftarrow> L_net self q;
       V \<leftarrow> HNN_structure.V_net self q;
       pp \<leftarrow> mul p p;
       LL \<leftarrow> mul L L;
       mass \<leftarrow> add LL (Sc 0.1);
       kin \<leftarrow> kinetic_spec pp mass;
       add kin V
     }"

section \<open>The class \<^verbatim>\<open>HNN_structure_pend\<close>\<close>

record HNN_structure_pend = torch_module +
  M_net :: net
  V_net :: net
  A_net :: net

definition HNN_structure_pend_init ::
  "int \<Rightarrow> net \<Rightarrow> net \<Rightarrow> net \<Rightarrow> string \<Rightarrow> bool \<Rightarrow> HNN_structure_pend option" where
  "HNN_structure_pend_init input_dim M_net' V_net' A_net' device' assume_canonical_coords' =
     (let self = \<lparr> assume_canonical_coords = assume_canonical_coords', device = device',
                    M = Tn [], nfe = 0, M_net = M_net', V_net = V_net', A_net = A_net' \<rparr>;
          (P, self) = permutation_tensor self input_dim
      in do {
        P' \<leftarrow> P;
        Some (self \<lparr> M := P', nfe := 0 \<rparr>)
      })"

definition HNN_structure_pend_forward ::
  "HNN_structure_pend \<Rightarrow> tensor \<Rightarrow> tensor option \<times> HNN_structure_pend" where
  "HNN_structure_pend_forward self x =
     (do {
        (q, p) \<leftarrow> chunk2 x;
        V_q \<leftarrow> V_net self q;
        M_q_inv \<leftarrow> M_net self q;
        Mp \<leftarrow> matmul M_q_inv p;
        pt \<leftarrow> torch_t p;
        pMp \<leftarrow> matmul pt Mp;
        add pMp V_q
      }, self)"

text \<open>
  The mass matrix of \<^verbatim>\<open>time_derivative\<close>: the constant \<^verbatim>\<open>diag(1, 1, 3)\<close>, once per
  batch element. The call of \<^verbatim>\<open>self.M_net\<close> is commented out in the source.
\<close>

definition M_q_inv_of :: "nat \<Rightarrow> tensor option" where
  "M_q_inv_of bs =
     do {
       D \<leftarrow> diag_embed (Tn [Sc 1, Sc 1, Sc 3]);
       D1 \<leftarrow> unsqueeze 0 D;
       repeat3 bs D1
     }"

text \<open>
  The Hamiltonian that \<^verbatim>\<open>time_derivative\<close> computes, as a function of \<open>x\<close>:
  the lines from \<^verbatim>\<open>bs = x.shape[0]\<close> to \<^verbatim>\<open>H = ...\<close>.
\<close>

definition time_derivative_H :: "HNN_structure_pend \<Rightarrow> tensor \<Rightarrow> tensor option" where
  "time_derivative_H self x =
     do {
       bs \<leftarrow> shape0 x;
       (q, p) \<leftarrow> chunk2 x;
       V_q \<leftarrow> V_net self q;
       M_q_inv \<leftarrow> M_q_inv_of bs;
       p_aug \<leftarrow> unsqueeze 2 p;
       p_augT \<leftarrow> transpose12 p_aug;
       Mp \<leftarrow> matmul M_q_inv p_aug;
       pMp \<leftarrow> matmul p_augT Mp;
       add (squeeze pMp) V_q
     }"

text \<open>
  \<^verbatim>\<open>get_jacobian(self, input, output)\<close>; \<open>output\<close> is the computation that produced the
  tensor \<^verbatim>\<open>output\<close> from \<^verbatim>\<open>input\<close>. The loop over \<^verbatim>\<open>range(len(output_sum))\<close> is the
  \<open>map\<close> over \<open>[0..<n]\<close>.
\<close>

definition get_jacobian ::
  "autograd \<Rightarrow> HNN_structure_pend \<Rightarrow> tensor \<Rightarrow> (tensor \<Rightarrow> tensor option) \<Rightarrow>
     tensor option \<times> HNN_structure_pend" where
  "get_jacobian grad self input output =
     (do {
        out \<leftarrow> output input;
        n \<leftarrow> shape0 (sum0 (squeeze out));
        jac \<leftarrow> those (map (\<lambda>i. grad (\<lambda>y. do { o' \<leftarrow> output y; index (sum0 (squeeze o')) i }) input)
                          [0..<n]);
        stack1 jac
      }, self)"

text \<open>The lines that compute \<^verbatim>\<open>lambd\<close> from \<^verbatim>\<open>A_q\<close>, \<^verbatim>\<open>M_q_inv\<close>, the halves of \<^verbatim>\<open>dH\<close> and the Jacobian.\<close>

definition RHS_of :: "tensor \<Rightarrow> tensor \<Rightarrow> tensor \<Rightarrow> tensor \<Rightarrow> tensor \<Rightarrow> tensor option" where
  "RHS_of A_T_q M_q_inv dHdq dHdp dA_T_M_inv_p_dq =
     do {
       dHdq2 \<leftarrow> unsqueeze 2 dHdq;
       MdHdq \<leftarrow> matmul M_q_inv dHdq2;
       a \<leftarrow> matmul A_T_q MdHdq;
       dHdp2 \<leftarrow> unsqueeze 2 dHdp;
       b \<leftarrow> matmul dA_T_M_inv_p_dq dHdp2;
       sub a b
     }"

definition LHS_of :: "tensor \<Rightarrow> tensor \<Rightarrow> tensor \<Rightarrow> tensor option" where
  "LHS_of A_T_q M_q_inv A_q = do { MA \<leftarrow> matmul M_q_inv A_q; matmul A_T_q MA }"

text \<open>The line \<^verbatim>\<open>LHS = LHS + torch.ones_like(LHS) * 0.1\<close>.\<close>

definition LHS_plus :: "tensor \<Rightarrow> tensor option" where
  "LHS_plus lhs = do { reg \<leftarrow> mul (ones_like lhs) (Sc 0.1); add lhs reg }"

text \<open>
  The tensor \<^verbatim>\<open>A_T_M_inv_p\<close> that \<^verbatim>\<open>get_jacobian\<close> differentiates, as a function of
  \<open>q\<close>; \<open>p\<close> and \<open>M_q_inv\<close> do not depend on \<open>q\<close>.
\<close>

definition A_T_M_inv_p_of ::
  "HNN_structure_pend \<Rightarrow> tensor \<Rightarrow> tensor \<Rightarrow> tensor \<Rightarrow> tensor option" where
  "A_T_M_inv_p_of self p M_q_inv q =
     do {
       A \<leftarrow> A_net self q;
       A_T \<leftarrow> transpose12 A;
       p2 \<leftarrow> unsqueeze 2 p;
       Mp \<leftarrow> matmul M_q_inv p2;
       matmul A_T Mp
     }"

text \<open>
  The local variables of \<^verbatim>\<open>time_derivative\<close> when it reaches its \<^verbatim>\<open>return\<close>.
  \<^verbatim>\<open>LHS\<close> is assigned twice: \<open>LHS\<close> is its first value and \<open>LHS'\<close> its second.
\<close>

record pend_locals =
  H_vector_field :: tensor
  dHdq :: tensor
  dHdp :: tensor
  A_q :: tensor
  A_T_q :: tensor
  M_q_inv :: tensor
  dA_T_M_inv_p_dq :: tensor
  RHS :: tensor
  LHS :: tensor
  LHS' :: tensor
  lambd :: tensor
  con_force :: tensor
  con_force_vector_field :: tensor

definition time_derivative_locals ::
  "autograd \<Rightarrow> net \<Rightarrow> HNN_structure_pend \<Rightarrow> tensor \<Rightarrow>
     pend_locals option \<times> HNN_structure_pend" where
  "time_derivative_locals grad torch_inverse self x =
     (case (do {
              bs \<leftarrow> shape0 x;
              (q, p) \<leftarrow> chunk2 x;
              Mi \<leftarrow> M_q_inv_of bs;
              H \<leftarrow> time_derivative_H self x;
              dH \<leftarrow> grad (\<lambda>y. map_option tsum (time_derivative_H self y)) x;
              Mt \<leftarrow> torch_t (M self);
              Hvf \<leftarrow> matmul dH Mt;
              (dq, dp) \<leftarrow> chunk2 dH;
              A \<leftarrow> A_net self q;
              A_T \<leftarrow> transpose12 A;
              Some (q, p, Mi, Hvf, dq, dp, A, A_T)
            }) of
        None \<Rightarrow> (None, self)
      | Some (q, p, Mi, Hvf, dq, dp, A, A_T) \<Rightarrow>
          (let (jac, self) = get_jacobian grad self q (A_T_M_inv_p_of self p Mi)
           in (do {
                 J \<leftarrow> jac;
                 rhs \<leftarrow> RHS_of A_T Mi dq dp J;
                 lhs \<leftarrow> LHS_of A_T Mi A;
                 lhs' \<leftarrow> LHS_plus lhs;
                 lhs_inv \<leftarrow> torch_inverse lhs';
                 lam \<leftarrow> matmul lhs_inv rhs;
                 Al \<leftarrow> matmul A lam;
                 cfvf \<leftarrow> cat1 (zeros_like (squeeze Al)) (squeeze Al);
                 Some \<lparr> H_vector_field = Hvf, dHdq = dq, dHdp = dp, A_q = A, A_T_q = A_T,
                        M_q_inv = Mi, dA_T_M_inv_p_dq = J, RHS = rhs, LHS = lhs, LHS' = lhs',
                        lambd = lam, con_force = squeeze Al, con_force_vector_field = cfvf \<rparr>
               }, self)))"

definition HNN_structure_pend_time_derivative ::
  "autograd \<Rightarrow> net \<Rightarrow> HNN_structure_pend \<Rightarrow> 't \<Rightarrow> tensor \<Rightarrow>
     tensor option \<times> HNN_structure_pend" where
  "HNN_structure_pend_time_derivative grad torch_inverse self t x =
     (let self = self \<lparr> nfe := nfe self + 1 \<rparr>;
          (l, self) = time_derivative_locals grad torch_inverse self x
      in (do { l' \<leftarrow> l; add (H_vector_field l') (con_force_vector_field l') }, self))"

section \<open>The canonical symplectic matrix\<close>

text \<open>
  The matrix \<open>[[0, I], [-I, 0]]\<close> of size \<open>2 * d\<close> as the specification names it, the
  identity matrix, and what makes a square matrix a signed permutation matrix: every row
  and every column has exactly one entry that is not zero, and the entries are 0, 1 or -1.
\<close>

definition canonical_symplectic :: "nat \<Rightarrow> real list list" where
  "canonical_symplectic d =
     map (\<lambda>i. map (\<lambda>j. if j = i + d then 1 else if i = j + d then - 1 else 0) [0..<2 * d])
       [0..<2 * d]"

definition identity_matrix :: "nat \<Rightarrow> real list list" where
  "identity_matrix n = map (\<lambda>i. map (\<lambda>j. if i = j then 1 else 0) [0..<n]) [0..<n]"

definition signed_permutation :: "real list list \<Rightarrow> bool" where
  "signed_permutation A =
     (list_all (\<lambda>r. length r = length A \<and> length (filter (\<lambda>a. a \<noteq> 0) r) = 1 \<and>
                     list_all (\<lambda>a. a = 0 \<or> a = 1 \<or> a = - 1) r) A \<and>
      list_all (\<lambda>c. length (filter (\<lambda>a. a \<noteq> 0) c) = 1) (transpose A))"

section \<open>Matrices and batches of matrices\<close>

text \<open>
  An \<open>r\<close> by \<open>c\<close> matrix as a list of rows, a batch of matrices as a 3-dimensional
  tensor, and a batch of \<open>n\<close> matrices of one size.
\<close>

definition is_matrix :: "nat \<Rightarrow> nat \<Rightarrow> real list list \<Rightarrow> bool" where
  "is_matrix r c A = (length A = r \<and> list_all (\<lambda>row. length row = c) A)"

definition batch :: "real list list list \<Rightarrow> tensor" where
  "batch As = Tn (map of_mat As)"

definition is_batch :: "nat \<Rightarrow> nat \<Rightarrow> nat \<Rightarrow> real list list list \<Rightarrow> bool" where
  "is_batch n r c As = (length As = n \<and> list_all (is_matrix r c) As)"

section \<open>One value for each state\<close>

text \<open>
  The tensor \<open>y\<close> holds exactly one number for each row of the batch \<open>x\<close>.
\<close>

definition one_scalar_per_row :: "tensor \<Rightarrow> tensor \<Rightarrow> bool" where
  "one_scalar_per_row x y = (length (entries y) = length (children x))"

section \<open>Example inputs\<close>

text \<open>
  A network that returns one energy per row, the sum of the squares of the row.
\<close>

definition energy_net :: net where
  "energy_net x =
     Some (Tn (map (\<lambda>r. Tn [Sc (sum_list (map (\<lambda>a. a * a) (entries r)))]) (children x)))"

definition ex_hnn :: HNN where
  "ex_hnn = \<lparr> assume_canonical_coords = True, device = ''cpu'', M = of_mat [[0, 1], [- 1, 0]],
     nfe = 0, baseline = False, differentiale_model = energy_net, damp = False, dampNet = None \<rparr>"

text \<open>The module that the constructor builds for a state of one coordinate.\<close>

definition ex_hnn1 :: HNN where
  "ex_hnn1 = \<lparr> assume_canonical_coords = True, device = ''cpu'', M = of_mat [[1]],
     nfe = 0, baseline = False, differentiale_model = energy_net, damp = False, dampNet = None \<rparr>"

definition ex_structure :: HNN_structure where
  "ex_structure = \<lparr> assume_canonical_coords = True, device = ''cpu'', M = of_mat [[0, 1], [- 1, 0]],
     nfe = 0, L_net = energy_net, V_net = energy_net \<rparr>"

text \<open>
  An instance of the gradient operator: central differences with step 1 at every entry,
  which are the partial derivatives of a function that is a polynomial of degree at most
  two in each entry. The functions differentiated below are of this kind.
\<close>

function central_differences :: "(tensor \<Rightarrow> real) \<Rightarrow> (tensor \<Rightarrow> tensor) \<Rightarrow> tensor \<Rightarrow> tensor" where
  "central_differences f ctx (Sc a) = Sc ((f (ctx (Sc (a + 1))) - f (ctx (Sc (a - 1)))) / 2)"
| "central_differences f ctx (Tn ts) =
     Tn (map (\<lambda>i. central_differences f (\<lambda>t. ctx (Tn (ts[i := t]))) (ts ! i)) [0..<length ts])"
  by pat_completeness auto

termination
proof (relation "measure (\<lambda>(f, ctx, x). size x)", goal_cases)
  case 1
  show ?case by simp
next
  case (2 f ctx ts i)
  then show ?case using size_child [of "ts ! i" ts] by simp
qed

definition scalar_of :: "tensor option \<Rightarrow> real" where
  "scalar_of y = (case y of Some (Sc a) \<Rightarrow> a | _ \<Rightarrow> 0)"

definition central_difference_grad :: autograd where
  "central_difference_grad f x =
     (case f x of Some (Sc a) \<Rightarrow> Some (central_differences (\<lambda>y. scalar_of (f y)) (\<lambda>t. t) x) | _ \<Rightarrow> None)"

text \<open>
  An instance of \<^verbatim>\<open>torch.inverse\<close> on batches of 2 by 2 matrices; a singular matrix
  raises.
\<close>

fun inverse_2x2 :: "real list list \<Rightarrow> real list list option" where
  "inverse_2x2 [[a, b], [c, d]] =
     (if a * d - b * c = 0 then None
      else Some [[d / (a * d - b * c), - b / (a * d - b * c)],
                 [- c / (a * d - b * c), a / (a * d - b * c)]])"
| "inverse_2x2 A = None"

definition batch_inverse_2x2 :: net where
  "batch_inverse_2x2 x =
     (if dim x = 3 then
        map_option Tn (those (map (\<lambda>m. do { A \<leftarrow> to_mat m; B \<leftarrow> inverse_2x2 A; Some (of_mat B) })
                                  (children x)))
      else None)"

text \<open>
  A pendulum module with the potential \<open>V(q) = q\<^sub>1 + q\<^sub>2 + q\<^sub>3\<close>, two constant constraint
  directions and a mass network that returns twice the identity; a batch of two states,
  and the local variables of \<^verbatim>\<open>time_derivative\<close> on it.
\<close>

definition sum_net :: net where
  "sum_net x = Some (Tn (map (\<lambda>r. Tn [Sc (sum_list (entries r))]) (children x)))"

definition const_A_net :: net where
  "const_A_net q = Some (Tn (map (\<lambda>r. of_mat [[1, 0], [0, 1], [0, 0]]) (children q)))"

definition double_M_net :: net where
  "double_M_net q = Some (Tn (map (\<lambda>r. of_mat [[2, 0, 0], [0, 2, 0], [0, 0, 2]]) (children q)))"

definition ex_pend :: HNN_structure_pend where
  "ex_pend = \<lparr> assume_canonical_coords = True, device = ''cpu'',
     M = of_mat (canonical_symplectic 3), nfe = 0,
     M_net = double_M_net, V_net = sum_net, A_net = const_A_net \<rparr>"

definition ex_x :: tensor where
  "ex_x = of_mat [[1, 2, 3, 1, 0, 0], [0, 1, 0, 0, 1, 1]]"

definition ex_locals :: pend_locals where
  "ex_locals = \<lparr>
     H_vector_field = of_mat [[4, 0, 0, - 2, - 2, - 2], [0, 4, 12, - 2, - 2, - 2]],
     dHdq = of_mat [[2, 2, 2], [2, 2, 2]],
     dHdp = of_mat [[4, 0, 0], [0, 4, 12]],
     A_q = batch [[[1, 0], [0, 1], [0, 0]], [[1, 0], [0, 1], [0, 0]]],
     A_T_q = batch [[[1, 0, 0], [0, 1, 0]], [[1, 0, 0], [0, 1, 0]]],
     M_q_inv = batch [[[1, 0, 0], [0, 1, 0], [0, 0, 3]], [[1, 0, 0], [0, 1, 0], [0, 0, 3]]],
     dA_T_M_inv_p_dq = batch [[[0, 0, 0], [0, 0, 0]], [[0, 0, 0], [0, 0, 0]]],
     RHS = batch [[[2], [2]], [[2], [2]]],
     LHS = batch [[[1, 0], [0, 1]], [[1, 0], [0, 1]]],
     LHS' = batch [[[11 / 10, 1 / 10], [1 / 10, 11 / 10]], [[11 / 10, 1 / 10], [1 / 10, 11 / 10]]],
     lambd = batch [[[5 / 3], [5 / 3]], [[5 / 3], [5 / 3]]],
     con_force = of_mat [[5 / 3, 5 / 3, 0], [5 / 3, 5 / 3, 0]],
     con_force_vector_field = of_mat [[0, 0, 0, 5 / 3, 5 / 3, 0], [0, 0, 0, 5 / 3, 5 / 3, 0]] \<rparr>"

definition ex_q :: tensor where "ex_q = of_mat [[1, 2, 3], [0, 1, 0]]"

definition ex_p :: tensor where "ex_p = of_mat [[1, 0, 0], [0, 1, 1]]"

definition ex_dH_val :: tensor where
  "ex_dH_val = of_mat [[2, 2, 2, 4, 0, 0], [2, 2, 2, 0, 4, 12]]"

definition ex_LHS_inv :: tensor where
  "ex_LHS_inv = batch [[[11 / 12, - 1 / 12], [- 1 / 12, 11 / 12]], [[11 / 12, - 1 / 12], [- 1 / 12, 11 / 12]]]"

definition ex_Al :: tensor where
  "ex_Al = batch [[[5 / 3], [5 / 3], [0]], [[5 / 3], [5 / 3], [0]]]"

text \<open>
  A pendulum module whose constraint directions depend on the position: the matrix
  \<open>A(q)\<close> has the rows \<open>(1, 0)\<close>, \<open>(0, 1)\<close> and \<open>(q\<^sub>1, q\<^sub>2)\<close>. A batch of three states, and the
  local variables of \<^verbatim>\<open>time_derivative\<close> on it.
\<close>

definition lin_A_net :: net where
  "lin_A_net q =
     map_option Tn (those (map (\<lambda>r. case entries r of
          a # b # cs \<Rightarrow> Some (of_mat [[1, 0], [0, 1], [a, b]]) | _ \<Rightarrow> None) (children q)))"

definition ex2_pend :: HNN_structure_pend where
  "ex2_pend = \<lparr> assume_canonical_coords = True, device = ''cpu'',
     M = of_mat (canonical_symplectic 3), nfe = 0,
     M_net = double_M_net, V_net = sum_net, A_net = lin_A_net \<rparr>"

definition ex2_x :: tensor where
  "ex2_x = of_mat [[1, 2, 3, 1, 0, 0], [0, 1, 0, 1, 1, 1], [2, 0, 1, 0, 1, 0]]"

definition ex2_locals :: pend_locals where
  "ex2_locals = \<lparr>
     H_vector_field = of_mat [[6, 0, 0, - 3, - 3, - 3], [6, 6, 18, - 3, - 3, - 3], [0, 6, 0, - 3, - 3, - 3]],
     dHdq = of_mat [[3, 3, 3], [3, 3, 3], [3, 3, 3]],
     dHdp = of_mat [[6, 0, 0], [6, 6, 18], [0, 6, 0]],
     A_q = batch [[[1, 0], [0, 1], [1, 2]], [[1, 0], [0, 1], [0, 1]], [[1, 0], [0, 1], [2, 0]]],
     A_T_q = batch [[[1, 0, 1], [0, 1, 2]], [[1, 0, 0], [0, 1, 1]], [[1, 0, 2], [0, 1, 0]]],
     M_q_inv = batch [[[1, 0, 0], [0, 1, 0], [0, 0, 3]], [[1, 0, 0], [0, 1, 0], [0, 0, 3]], [[1, 0, 0], [0, 1, 0], [0, 0, 3]]],
     dA_T_M_inv_p_dq = batch [[[0, 0, 0], [0, 0, 0]], [[3, 0, 0], [0, 3, 0]], [[0, 0, 0], [0, 0, 0]]],
     RHS = batch [[[12], [21]], [[- 15], [- 6]], [[21], [3]]],
     LHS = batch [[[4, 6], [6, 13]], [[1, 0], [0, 4]], [[13, 0], [0, 1]]],
     LHS' = batch [[[41 / 10, 61 / 10], [61 / 10, 131 / 10]], [[11 / 10, 1 / 10], [1 / 10, 41 / 10]],
            [[131 / 10, 1 / 10], [1 / 10, 11 / 10]]],
     lambd = batch [[[97 / 55], [43 / 55]], [[- 203 / 15], [- 17 / 15]], [[19 / 12], [31 / 12]]],
     con_force = of_mat [[97 / 55, 43 / 55, 183 / 55], [- 203 / 15, - 17 / 15, - 17 / 15], [19 / 12, 31 / 12, 19 / 6]],
     con_force_vector_field = of_mat [[0, 0, 0, 97 / 55, 43 / 55, 183 / 55], [0, 0, 0, - 203 / 15, - 17 / 15, - 17 / 15],
             [0, 0, 0, 19 / 12, 31 / 12, 19 / 6]] \<rparr>"

definition ex2_q :: tensor where "ex2_q = of_mat [[1, 2, 3], [0, 1, 0], [2, 0, 1]]"

definition ex2_p :: tensor where "ex2_p = of_mat [[1, 0, 0], [1, 1, 1], [0, 1, 0]]"

definition ex2_dH_val :: tensor where
  "ex2_dH_val = of_mat [[3, 3, 3, 6, 0, 0], [3, 3, 3, 6, 6, 18], [3, 3, 3, 0, 6, 0]]"

definition ex2_LHS_inv :: tensor where
  "ex2_LHS_inv = batch [[[131 / 165, - 61 / 165], [- 61 / 165, 41 / 165]], [[41 / 45, - 1 / 45], [- 1 / 45, 11 / 45]],
            [[11 / 144, - 1 / 144], [- 1 / 144, 131 / 144]]]"

definition ex2_Al :: tensor where
  "ex2_Al = batch [[[97 / 55], [43 / 55], [183 / 55]], [[- 203 / 15], [- 17 / 15], [- 17 / 15]],
            [[19 / 12], [31 / 12], [19 / 6]]]"

text \<open>
  The sum of the diagonal of a square matrix. \<^verbatim>\<open>time_derivative\<close> adds a vector of \<open>bs\<close>
  kinetic energies to a \<open>bs\<close> by 1 matrix of potential energies, which gives a \<open>bs\<close> by
  \<open>bs\<close> matrix \<open>H\<close>; the energy of state \<open>i\<close> is its entry \<open>(i, i)\<close>.
\<close>

definition diag_sum :: "tensor \<Rightarrow> tensor" where
  "diag_sum H = Sc (sum_list (map (\<lambda>(i, r). case drop i (entries r) of a # as \<Rightarrow> a | [] \<Rightarrow> 0)
                                   (enumerate 0 (children H))))"

section \<open>Properties\<close>

subsection \<open>Helper lemmas\<close>

lemma permutation_tensor_self: "snd (permutation_tensor self n) = self"
  by (simp add: permutation_tensor_def)

lemma permutation_tensor_reads:
  "assume_canonical_coords self = assume_canonical_coords self' \<Longrightarrow>
   fst (permutation_tensor self n) = fst (permutation_tensor self' n)"
  by (simp add: permutation_tensor_def)

lemma HNN_H_sum_model: "HNN_H_sum s = (\<lambda>y. map_option tsum (differentiale_model s y))"
  by (rule ext) (simp add: HNN_H_sum_def HNN_forward_def)

lemma ex_hnn_init: "HNN_init 2 energy_net ''cpu'' False True False None = Some ex_hnn"
  by (simp add: HNN_init_def permutation_tensor_def eye_def cat0_def neg_def ex_hnn_def
      of_mat_def of_vec_def upt_rec numeral_2_eq_2)

lemma those_map_Some: "those (map (\<lambda>a. Some (g a)) ts) = Some (map g ts)"
  by (induction ts) auto

lemma those_map_cong_Some:
  "(\<And>a. a \<in> set ts \<Longrightarrow> h a = Some (g a)) \<Longrightarrow> those (map h ts) = Some (map g ts)"
  by (induction ts) auto

lemma entries_tmap: "entries (tmap f t) = map f (entries t)"
  by (induction t) (auto simp: map_concat o_def cong: map_cong)

lemma broadcast_self: "broadcast f t t = Some (tmap (\<lambda>a. f a a) t)"
proof (induction t)
  case (Sc a)
  show ?case by simp
next
  case (Tn ts)
  have "those (map (\<lambda>(a, b). broadcast f a b) (zip ts ts)) = Some (map (tmap (\<lambda>a. f a a)) ts)"
    unfolding zip_same_conv_map map_map o_def
    by (rule those_map_cong_Some) (simp add: Tn.IH)
  then show ?case by simp
qed

lemma broadcast_scalar: "broadcast f t (Sc b) = Some (tmap (\<lambda>a. f a b) t)"
  by (cases t) simp_all

lemma M_q_of_eq: "M_q_of L = Some (tmap (\<lambda>a. a * a + 0.1) L)"
proof -
  have "tmap (\<lambda>a. a + 0.1) (tmap (\<lambda>a. a * a) t) = tmap (\<lambda>a. a * a + 0.1) t" for t
    by (induction t) auto
  then show ?thesis
    by (simp add: M_q_of_def mul_def add_def broadcast_self broadcast_scalar)
qed

lemma dim_tmap: "dim (tmap g t) = dim t"
proof (induction t)
  case (Sc a) show ?case by simp
next
  case (Tn ts) then show ?case by (cases ts) auto
qed

lemma tmap_tmap: "tmap f (tmap g t) = tmap (\<lambda>a. f (g a)) t"
  by (induction t) auto

lemma broadcast_scalar_left: "broadcast f (Sc a) t = Some (tmap (f a) t)"
  by (cases t) simp_all

lemma those_map_option:
  "those (map (\<lambda>a. map_option h (k a)) ts) = map_option (map h) (those (map k ts))"
proof (induction ts)
  case Nil
  show ?case by simp
next
  case (Cons a ts)
  then show ?case by (cases "k a"; cases "those (map k ts)") simp_all
qed

lemma broadcast_tmap_right:
  "broadcast f a (tmap g b) = broadcast (\<lambda>x y. f x (g y)) a b"
proof (induction f a b rule: broadcast.induct)
  case (1 f a b) show ?case by simp
next
  case (2 f a bs) show ?case by (simp add: tmap_tmap o_def cong: map_cong)
next
  case (3 f as b) show ?case by simp
next
  case (4 f as bs)
  have d: "dim (Tn (map (tmap g) bs)) = dim (Tn bs)"
    using dim_tmap [of g "Tn bs"] by simp
  show ?case
  proof (cases "dim (Tn as) < dim (Tn bs)")
    case True
    then show ?thesis using 4(1) d by (simp add: o_def del: map_eq_conv cong: map_cong)
  next
    case F1: False
    show ?thesis
    proof (cases "dim (Tn bs) < dim (Tn as)")
      case True
      then have "map (\<lambda>a. broadcast f a (Tn (map (tmap g) bs))) as =
                 map (\<lambda>a. broadcast (\<lambda>x y. f x (g y)) a (Tn bs)) as"
        using 4(2) F1 by (intro map_cong) auto
      then show ?thesis using True F1 d by (simp del: map_eq_conv)
    next
      case F2: False
      show ?thesis
      proof (cases "length as = length bs")
        case True
        have "map (\<lambda>(a, b). broadcast f a b) (zip as (map (tmap g) bs)) =
              map (\<lambda>(a, b). broadcast (\<lambda>x y. f x (g y)) a b) (zip as bs)"
          unfolding zip_map2 map_map o_def
          using 4(3) F1 F2 True by (intro map_cong) auto
        then show ?thesis using F1 F2 True d by (simp del: map_eq_conv)
      next
        case F3: False
        show ?thesis
        proof (cases "length as = 1")
          case True
          then show ?thesis using 4(4) F1 F2 F3 d by (simp add: o_def cong: map_cong)
        next
          case F4: False
          show ?thesis
          proof (cases "length bs = 1")
            case True
            then obtain b where bs: "bs = [b]" by (cases bs) auto
            have "map (\<lambda>a. broadcast f a (tmap g b)) as =
                  map (\<lambda>a. broadcast (\<lambda>x y. f x (g y)) a b) as"
              using 4(5) F1 F2 F3 F4 True bs by (intro map_cong) auto
            then show ?thesis using F1 F2 F3 F4 True d bs by (simp del: map_eq_conv)
          next
            case False
            then show ?thesis using F1 F2 F3 F4 d by (simp del: map_eq_conv)
          qed
        qed
      qed
    qed
  qed
qed

lemma broadcast_post:
  "broadcast (\<lambda>x y. h (f x y)) a b = map_option (tmap h) (broadcast f a b)"
proof (induction f a b rule: broadcast.induct)
  case (1 f a b) show ?case by simp
next
  case (2 f a bs) show ?case by (simp add: tmap_tmap o_def)
next
  case (3 f as b) show ?case by (simp add: tmap_tmap o_def)
next
  case (4 f as bs)
  have A: "map_option Tn (those (map (\<lambda>a. map_option (tmap h) (k a)) ts)) =
        map_option (tmap h) (map_option Tn (those (map k ts)))" for k and ts :: "'z list"
    by (simp add: those_map_option option.map_comp o_def)
  show ?case
  proof (cases "dim (Tn as) < dim (Tn bs)")
    case True
    have "map (\<lambda>b. broadcast (\<lambda>x y. h (f x y)) (Tn as) b) bs =
          map (\<lambda>b. map_option (tmap h) (broadcast f (Tn as) b)) bs"
      using 4(1) True by (intro map_cong) auto
    then show ?thesis using True by (simp add: A del: map_eq_conv)
  next
    case F1: False
    show ?thesis
    proof (cases "dim (Tn bs) < dim (Tn as)")
      case True
      have "map (\<lambda>a. broadcast (\<lambda>x y. h (f x y)) a (Tn bs)) as =
            map (\<lambda>a. map_option (tmap h) (broadcast f a (Tn bs))) as"
        using 4(2) True F1 by (intro map_cong) auto
      then show ?thesis using True F1 by (simp add: A del: map_eq_conv)
    next
      case F2: False
      show ?thesis
      proof (cases "length as = length bs")
        case True
        have "map (\<lambda>(a, b). broadcast (\<lambda>x y. h (f x y)) a b) (zip as bs) =
              map (\<lambda>z. map_option (tmap h) (case z of (a, b) \<Rightarrow> broadcast f a b)) (zip as bs)"
          using 4(3) F1 F2 True by (intro map_cong) auto
        then show ?thesis using F1 F2 True by (simp add: A del: map_eq_conv)
      next
        case F3: False
        show ?thesis
        proof (cases "length as = 1")
          case True
          have "map (\<lambda>b. broadcast (\<lambda>x y. h (f x y)) (hd as) b) bs =
                map (\<lambda>b. map_option (tmap h) (broadcast f (hd as) b)) bs"
            using 4(4) F1 F2 F3 True by (intro map_cong) auto
          then show ?thesis using F1 F2 F3 True by (simp add: A del: map_eq_conv)
        next
          case F4: False
          show ?thesis
          proof (cases "length bs = 1")
            case True
            have "map (\<lambda>a. broadcast (\<lambda>x y. h (f x y)) a (hd bs)) as =
                  map (\<lambda>a. map_option (tmap h) (broadcast f a (hd bs))) as"
              using 4(5) F1 F2 F3 F4 True by (intro map_cong) auto
            then show ?thesis using F1 F2 F3 F4 True by (simp add: A del: map_eq_conv)
          next
            case False
            then show ?thesis using F1 F2 F3 F4 by simp
          qed
        qed
      qed
    qed
  qed
qed

lemma kinetic_spec_eq:
  "kinetic_spec pp mass = do { ppM \<leftarrow> div_t pp mass; div_t ppM (Sc 2) }"
proof -
  have "(\<lambda>x y. x / (2 * y)) = (\<lambda>x y :: real. (x / y) / 2)"
    by (intro ext) simp
  then have "broadcast (/) pp (tmap ((*) 2) mass) = map_option (tmap (\<lambda>c. c / 2)) (broadcast (/) pp mass)"
    by (simp add: broadcast_tmap_right broadcast_post [symmetric])
  then show ?thesis
    by (cases "broadcast (/) pp mass")
       (simp_all add: kinetic_spec_def mul_def div_t_def broadcast_scalar_left broadcast_scalar)
qed

subsection \<open>Matrices as tensors\<close>

lemma dim_of_vec: "dim (of_vec v) = 1"
  by (cases v) (simp_all add: of_vec_def)

lemma dim_of_mat: "A \<noteq> [] \<Longrightarrow> dim (of_mat A) = 2"
  using dim_of_vec by (cases A) (simp_all add: of_mat_def)

lemma to_vec_of_vec: "to_vec (of_vec v) = Some v"
  by (simp add: of_vec_def o_def those_map_Some [of "\<lambda>a. a", simplified])

lemma to_mat_of_mat:
  "A \<noteq> [] \<Longrightarrow> list_all (\<lambda>r. length r = length (hd A)) A \<Longrightarrow> to_mat (of_mat A) = Some A"
  by (simp add: of_mat_def o_def to_vec_of_vec those_map_Some [of "\<lambda>a. a", simplified])

lemma eye_of_mat: "eye n = of_mat (identity_matrix n)"
  by (simp add: eye_def of_mat_def of_vec_def identity_matrix_def o_def)

lemma swap01_of_mat:
  "A \<noteq> [] \<Longrightarrow> list_all (\<lambda>r. length r = length (hd A)) A \<Longrightarrow>
   swap01 (of_mat A) = Some (of_mat (transpose A))"
proof -
  assume A: "A \<noteq> []" and r: "list_all (\<lambda>r. length r = length (hd A)) A"
  have 1: "map children (children (of_mat A)) = map (map Sc) A"
    by (simp add: of_mat_def of_vec_def o_def)
  have 2: "hd (children (of_mat A)) = of_vec (hd A)"
    using A by (cases A) (simp_all add: of_mat_def)
  have 3: "list_all (\<lambda>r. is_Tn r \<and> length (children r) = length (children (hd (children (of_mat A)))))
             (children (of_mat A))"
    using r unfolding 2 by (simp add: of_mat_def of_vec_def list_all_iff)
  show ?thesis
    using 3 dim_of_mat [OF A]
    by (simp add: swap01_def 1 transpose_map_map) (simp add: of_mat_def of_vec_def o_def)
qed

lemma torch_t_of_mat:
  "A \<noteq> [] \<Longrightarrow> list_all (\<lambda>r. length r = length (hd A)) A \<Longrightarrow>
   torch_t (of_mat A) = Some (of_mat (transpose A))"
  by (simp add: torch_t_def dim_of_mat swap01_of_mat)

lemma matmul_of_mat:
  assumes "A \<noteq> []" "list_all (\<lambda>r. length r = length (hd A)) A"
    and "B \<noteq> []" "list_all (\<lambda>r. length r = length (hd B)) B"
    and "length (hd A) = length B"
  shows "matmul (of_mat A) (of_mat B) = Some (of_mat (mm A B))"
proof -
  obtain as bs where ab: "of_mat A = Tn as" "of_mat B = Tn bs"
    by (simp add: of_mat_def)
  have "matmul (Tn as) (Tn bs) = matmul2 (Tn as) (Tn bs)"
    using dim_of_mat [OF assms(1)] dim_of_mat [OF assms(3)] unfolding ab by simp
  then show ?thesis
    using assms dim_of_mat [OF assms(1)] dim_of_mat [OF assms(3)]
    unfolding ab [symmetric] by (simp add: matmul2_def to_mat_of_mat)
qed

subsection \<open>The canonical symplectic matrix is orthogonal and skew\<close>

lemma canonical_nth:
  "i < 2 * d \<Longrightarrow> j < 2 * d \<Longrightarrow>
   canonical_symplectic d ! i ! j = (if j = i + d then 1 else if i = j + d then - 1 else 0)"
  by (simp add: canonical_symplectic_def)

lemma canonical_length: "length (canonical_symplectic d) = 2 * d"
  by (simp add: canonical_symplectic_def)

lemma canonical_row_length: "r \<in> set (canonical_symplectic d) \<Longrightarrow> length r = 2 * d"
  by (auto simp: canonical_symplectic_def)

lemma canonical_transpose:
  "transpose (canonical_symplectic d) = map (map uminus) (canonical_symplectic d)"
proof -
  have "transpose (canonical_symplectic d) =
      map (\<lambda>i. map (\<lambda>j. canonical_symplectic d ! j ! i) [0..<length (canonical_symplectic d)]) [0..<2 * d]"
    by (rule transpose_rectangle) (simp_all add: canonical_symplectic_def)
  then have "transpose (canonical_symplectic d) =
      map (\<lambda>i. map (\<lambda>j. canonical_symplectic d ! j ! i) [0..<2 * d]) [0..<2 * d]"
    by (simp add: canonical_length)
  also have "\<dots> = map (map uminus) (canonical_symplectic d)"
    by (auto simp: canonical_symplectic_def)
  finally show ?thesis .
qed

lemma transpose_neg_canonical:
  "transpose (map (map uminus) (canonical_symplectic d)) = canonical_symplectic d"
proof -
  have "transpose (map (map uminus) (canonical_symplectic d)) =
      map (\<lambda>i. map (\<lambda>j. map (map uminus) (canonical_symplectic d) ! j ! i)
        [0..<length (map (map uminus) (canonical_symplectic d))]) [0..<2 * d]"
    by (rule transpose_rectangle) (simp_all add: canonical_symplectic_def)
  then have "transpose (map (map uminus) (canonical_symplectic d)) =
      map (\<lambda>i. map (\<lambda>j. map (map uminus) (canonical_symplectic d) ! j ! i) [0..<2 * d]) [0..<2 * d]"
    by (simp add: canonical_length)
  also have "\<dots> = canonical_symplectic d"
    by (auto simp: canonical_symplectic_def)
  finally show ?thesis .
qed

lemma dot_upt:
  "dot (map f [0..<n]) (map g [0..<n]) = (\<Sum>j<n. f j * g j)"
proof -
  have "zip (map f [0..<n]) (map g [0..<n]) = map (\<lambda>j. (f j, g j)) [0..<n]"
    by (simp add: zip_map_map zip_same_conv_map)
  then show ?thesis
    by (simp add: dot_def o_def interv_sum_list_conv_sum_set_nat atLeast0LessThan)
qed

lemma canonical_rows_orthonormal:
  fixes i k d :: nat
  assumes "i < 2 * d" "k < 2 * d"
  shows "(\<Sum>j<2 * d.
            (if j = i + d then 1 else if i = j + d then - 1 else 0) *
            (if j = k + d then 1 else if k = j + d then - 1 else (0::real))) =
         (if i = k then 1 else 0)"
proof (cases "i < d")
  case True
  then have "(\<Sum>j<2 * d.
            (if j = i + d then 1 else if i = j + d then - 1 else 0) *
            (if j = k + d then 1 else if k = j + d then - 1 else (0::real))) =
        (\<Sum>j<2 * d. if j = i + d then (if j = k + d then 1 else if k = j + d then - 1 else 0) else 0)"
    by (intro sum.cong) auto
  also have "\<dots> = (if i + d = k + d then 1 else if k = i + d + d then - 1 else 0)"
    using True by (simp add: sum.delta')
  finally show ?thesis using assms by auto
next
  case False
  then have "(\<Sum>j<2 * d.
            (if j = i + d then 1 else if i = j + d then - 1 else 0) *
            (if j = k + d then 1 else if k = j + d then - 1 else (0::real))) =
        (\<Sum>j<2 * d. if j = i - d then - (if j = k + d then 1 else if k = j + d then - 1 else 0) else 0)"
    using assms by (intro sum.cong) auto
  also have "\<dots> = - (if i - d = k + d then 1 else if k = i - d + d then - 1 else 0)"
    using False assms by (auto simp: sum.delta')
  finally show ?thesis using assms False by auto
qed

lemma canonical_orthogonal:
  "mm (canonical_symplectic d) (transpose (canonical_symplectic d)) = identity_matrix (2 * d)"
proof -
  have "mm (canonical_symplectic d) (map (map uminus) (canonical_symplectic d)) =
      map (\<lambda>r. map (dot r) (canonical_symplectic d)) (canonical_symplectic d)"
    by (simp add: mm_def vm_def transpose_neg_canonical)
  also have "\<dots> = identity_matrix (2 * d)"
    unfolding canonical_symplectic_def identity_matrix_def map_map o_def
    by (intro map_cong refl) (simp add: dot_upt canonical_rows_orthonormal)
  finally show ?thesis by (simp add: canonical_transpose)
qed

lemma filter_single_upt:
  fixes s :: real
  shows "length (filter (\<lambda>a. a \<noteq> 0) (map (\<lambda>j. if j = c then s else 0) [0..<n])) =
         (if c < n \<and> s \<noteq> 0 then 1 else 0)"
  by (induction n) auto

lemma canonical_row_single:
  assumes "i < 2 * d"
  shows "map (\<lambda>j. if j = i + d then 1 else if i = j + d then - 1 else (0::real)) [0..<2 * d] =
         map (\<lambda>j. if j = (if i < d then i + d else i - d) then (if i < d then 1 else - 1) else 0) [0..<2 * d]"
  using assms by (intro map_cong refl) auto

lemma canonical_signed_permutation: "signed_permutation (canonical_symplectic d)"
proof -
  have rows: "list_all (\<lambda>r. length r = length (canonical_symplectic d) \<and>
        length (filter (\<lambda>a. a \<noteq> 0) r) = 1 \<and>
        list_all (\<lambda>a. a = 0 \<or> a = 1 \<or> a = - 1) r) (canonical_symplectic d)"
    unfolding canonical_length
    unfolding canonical_symplectic_def list_all_iff
  proof
    fix r
    assume "r \<in> set (map (\<lambda>i. map (\<lambda>j. if j = i + d then 1 else if i = j + d then - 1 else (0::real))
        [0..<2 * d]) [0..<2 * d])"
    then obtain i where i: "i < 2 * d"
      and r: "r = map (\<lambda>j. if j = i + d then 1 else if i = j + d then - 1 else (0::real)) [0..<2 * d]"
      by auto
    have "length (filter (\<lambda>a. a \<noteq> 0) r) = 1"
      unfolding r canonical_row_single [OF i] filter_single_upt using i by auto
    moreover have "\<forall>a\<in>set r. a = 0 \<or> a = 1 \<or> a = - 1"
      unfolding r by auto
    moreover have "length r = 2 * d"
      unfolding r by simp
    ultimately show "length r = 2 * d \<and> length (filter (\<lambda>a. a \<noteq> 0) r) = 1 \<and>
      (\<forall>a\<in>set r. a = 0 \<or> a = 1 \<or> a = - 1)" by simp
  qed
  have "length (filter (\<lambda>a. a \<noteq> 0) (map uminus r)) = length (filter (\<lambda>a. a \<noteq> 0) r)"
    for r :: "real list"
    by (induction r) auto
  then have cols: "list_all (\<lambda>c. length (filter (\<lambda>a. a \<noteq> 0) c) = 1)
      (transpose (canonical_symplectic d))"
    using rows unfolding canonical_transpose by (simp add: list_all_iff)
  show ?thesis
    using rows cols by (simp add: signed_permutation_def)
qed

lemma dim_Tn_map_of_vec: "xs \<noteq> [] \<Longrightarrow> dim (Tn (map (\<lambda>i. of_vec (f i)) xs)) = 2"
  using dim_of_vec by (cases xs) simp_all

lemma shape_of_vec: "shape (of_vec v) = [length v]"
  by (cases v) (simp_all add: of_vec_def)

lemma shape_Tn_map_of_vec:
  "xs \<noteq> [] \<Longrightarrow> shape (Tn (map (\<lambda>i. of_vec (f i)) xs)) = [length xs, length (f (hd xs))]"
  by (cases xs) (simp_all add: shape_of_vec)

lemma neg_of_vec: "neg (of_vec v) = of_vec (map uminus v)"
  by (simp add: neg_def of_vec_def)

lemma neg_of_mat: "neg (of_mat A) = of_mat (map (map uminus) A)"
  using neg_of_vec by (simp add: neg_def of_mat_def)

lemma permutation_tensor_canonical_eq:
  assumes "assume_canonical_coords self"
  shows "fst (permutation_tensor self (2 * int d)) = Some (of_mat (canonical_symplectic d))"
proof -
  let ?row = "\<lambda>i. map (\<lambda>j. if i = j then 1 else (0::real)) [0..<2 * d]"
  have n: "nat (2 * int d) = 2 * d" "nat (2 * int d div 2) = d"
    by simp_all
  have e: "children (eye (2 * d)) = map (\<lambda>i. of_vec (?row i)) [0..<2 * d]"
    by (simp add: eye_def of_vec_def o_def)
  have dr: "drop d (map (\<lambda>i. of_vec (?row i)) [0..<2 * d]) = map (\<lambda>i. of_vec (?row i)) [d..<2 * d]"
    by (simp add: drop_map)
  have tk: "take d (map (\<lambda>i. of_vec (?row i)) [0..<2 * d]) = map (\<lambda>i. of_vec (?row i)) [0..<d]"
    by (simp add: take_map)
  have ng: "neg (Tn (map (\<lambda>i. of_vec (?row i)) [0..<d])) = Tn (map (\<lambda>i. of_vec (map uminus (?row i))) [0..<d])"
    using neg_of_vec by (simp add: neg_def)
  have cat: "cat0 (Tn (map (\<lambda>i. of_vec (?row i)) [d..<2 * d]))
                  (Tn (map (\<lambda>i. of_vec (map uminus (?row i))) [0..<d])) =
             Some (Tn (map (\<lambda>i. of_vec (?row i)) [d..<2 * d] @
                       map (\<lambda>i. of_vec (map uminus (?row i))) [0..<d]))"
  proof (cases "d = 0")
    case True
    then show ?thesis by (simp add: cat0_def)
  next
    case False
    then have "[d..<2 * d] \<noteq> []" "[0..<d] \<noteq> []" by simp_all
    then show ?thesis
      using False
      by (simp add: cat0_def dim_Tn_map_of_vec shape_Tn_map_of_vec del: upt_eq_Nil_conv)
  qed
  have upper: "map (\<lambda>i. of_vec (?row i)) [d..<2 * d] =
      map (\<lambda>i. of_vec (map (\<lambda>j. if j = i + d then 1 else if i = j + d then - 1 else 0) [0..<2 * d])) [0..<d]"
  proof -
    have "[d..<2 * d] = map (\<lambda>i. i + d) [0..<d]"
      using map_add_upt [of d d] by (simp add: mult_2)
    then have "map (\<lambda>i. of_vec (?row i)) [d..<2 * d] = map (\<lambda>i. of_vec (?row (i + d))) [0..<d]"
      by (simp add: o_def)
    also have "\<dots> = map (\<lambda>i. of_vec (map (\<lambda>j. if j = i + d then 1 else if i = j + d then - 1 else 0) [0..<2 * d])) [0..<d]"
      by (intro map_cong refl arg_cong [where f = of_vec]) auto
    finally show ?thesis .
  qed
  have lower: "map (\<lambda>i. of_vec (map uminus (?row i))) [0..<d] =
      map (\<lambda>i. of_vec (map (\<lambda>j. if j = i + d then 1 else if i = j + d then - 1 else 0) [0..<2 * d])) [d..<2 * d]"
  proof -
    have "[d..<2 * d] = map (\<lambda>i. i + d) [0..<d]"
      using map_add_upt [of d d] by (simp add: mult_2)
    then have "map (\<lambda>i. of_vec (map (\<lambda>j. if j = i + d then 1 else if i = j + d then - 1 else (0::real)) [0..<2 * d])) [d..<2 * d] =
        map (\<lambda>i. of_vec (map (\<lambda>j. if j = i + d + d then 1 else if i + d = j + d then - 1 else 0) [0..<2 * d])) [0..<d]"
      by (simp add: o_def)
    also have "\<dots> = map (\<lambda>i. of_vec (map uminus (?row i))) [0..<d]"
      by (intro map_cong refl arg_cong [where f = of_vec]) auto
    finally show ?thesis by simp
  qed
  have split: "[0..<2 * d] = [0..<d] @ [d..<2 * d]"
    using upt_add_eq_append [of 0 d d] by (simp add: mult_2)
  have c: "of_mat (canonical_symplectic d) =
      Tn (map (\<lambda>i. of_vec (?row i)) [d..<2 * d] @ map (\<lambda>i. of_vec (map uminus (?row i))) [0..<d])"
    unfolding upper lower by (simp add: of_mat_def canonical_symplectic_def o_def split [symmetric] flip: map_append)
  have "fst (permutation_tensor self (2 * int d)) =
      cat0 (Tn (drop d (children (eye (2 * d))))) (neg (Tn (take d (children (eye (2 * d))))))"
    using assms by (simp add: permutation_tensor_def n)
  also have "\<dots> = Some (of_mat (canonical_symplectic d))"
    unfolding e dr tk ng cat c ..
  finally show ?thesis .
qed

lemma canonical_nonempty: "0 < d \<Longrightarrow> canonical_symplectic d \<noteq> []"
  by (simp add: canonical_symplectic_def)

lemma canonical_hd_length: "0 < d \<Longrightarrow> length (hd (canonical_symplectic d)) = 2 * d"
  using canonical_row_length [of "hd (canonical_symplectic d)" d] canonical_nonempty [of d]
  by simp

lemma canonical_rect:
  "list_all (\<lambda>r. length r = length (hd (canonical_symplectic d))) (canonical_symplectic d)"
proof (cases "d = 0")
  case True
  then show ?thesis by (simp add: canonical_symplectic_def)
next
  case False
  then show ?thesis
    using canonical_hd_length [of d] canonical_row_length [of _ d] by (simp add: list_all_iff)
qed

subsection \<open>Products of matrices and of batches\<close>

lemma is_matrix_row: "is_matrix r c A \<Longrightarrow> i < r \<Longrightarrow> length (A ! i) = c"
  by (simp add: is_matrix_def list_all_length)

lemma transpose_is_matrix:
  assumes "is_matrix k m B" "0 < k"
  shows "transpose B = map (\<lambda>j. map (\<lambda>l. B ! l ! j) [0..<k]) [0..<m]"
proof -
  have "transpose B = map (\<lambda>j. map (\<lambda>l. B ! l ! j) [0..<length B]) [0..<m]"
    using assms by (intro transpose_rectangle) (auto simp: is_matrix_def list_all_length)
  then show ?thesis using assms by (simp add: is_matrix_def)
qed

lemma dot_nth:
  assumes "length u = k" "length v = k"
  shows "dot u v = (\<Sum>l<k. u ! l * v ! l)"
proof -
  have "map (\<lambda>l. u ! l) [0..<k] = u" "map (\<lambda>l. v ! l) [0..<k] = v"
    using map_nth [of u] map_nth [of v] by (simp_all add: assms)
  then show ?thesis using dot_upt [of "\<lambda>l. u ! l" k "\<lambda>l. v ! l"] by simp
qed

lemma mm_entries:
  assumes "is_matrix n k A" "is_matrix k m B" "0 < k"
  shows "mm A B = map (\<lambda>i. map (\<lambda>j. \<Sum>l<k. A ! i ! l * B ! l ! j) [0..<m]) [0..<n]"
proof -
  have "mm A B = map (\<lambda>r. map (\<lambda>j. dot r (map (\<lambda>l. B ! l ! j) [0..<k])) [0..<m]) A"
    by (simp add: mm_def vm_def transpose_is_matrix [OF assms(2,3)] o_def)
  also have "\<dots> = map (\<lambda>i. map (\<lambda>j. dot (A ! i) (map (\<lambda>l. B ! l ! j) [0..<k])) [0..<m]) [0..<n]"
  proof -
    have "map g A = map (\<lambda>i. g (A ! i)) [0..<n]" for g :: "real list \<Rightarrow> real list"
      using assms(1) map_nth [of A] map_map [of g "\<lambda>i. A ! i" "[0..<n]"]
      by (simp add: is_matrix_def o_def)
    then show ?thesis .
  qed
  also have "\<dots> = map (\<lambda>i. map (\<lambda>j. \<Sum>l<k. A ! i ! l * B ! l ! j) [0..<m]) [0..<n]"
  proof (intro map_cong refl)
    fix i j assume "i \<in> set [0..<n]" "j \<in> set [0..<m]"
    then have "length (A ! i) = k" using is_matrix_row [OF assms(1)] by simp
    then show "dot (A ! i) (map (\<lambda>l. B ! l ! j) [0..<k]) = (\<Sum>l<k. A ! i ! l * B ! l ! j)"
      using dot_nth [of "A ! i" k "map (\<lambda>l. B ! l ! j) [0..<k]"] by simp
  qed
  finally show ?thesis .
qed

lemma mm_is_matrix:
  assumes "is_matrix n k A" "is_matrix k m B" "0 < k"
  shows "is_matrix n m (mm A B)"
  by (simp add: mm_entries [OF assms] is_matrix_def list_all_iff)

lemma mm_nth:
  assumes "is_matrix n k A" "is_matrix k m B" "0 < k" "i < n" "j < m"
  shows "mm A B ! i ! j = (\<Sum>l<k. A ! i ! l * B ! l ! j)"
  using assms(4,5) by (simp add: mm_entries [OF assms(1,2,3)])

lemma mm_assoc:
  assumes "is_matrix n k A" "is_matrix k m B" "is_matrix m p C" "0 < k" "0 < m"
  shows "mm (mm A B) C = mm A (mm B C)"
proof -
  have AB: "is_matrix n m (mm A B)" by (rule mm_is_matrix [OF assms(1,2,4)])
  have BC: "is_matrix k p (mm B C)" by (rule mm_is_matrix [OF assms(2,3,5)])
  have "mm (mm A B) C = map (\<lambda>i. map (\<lambda>j. \<Sum>t<m. mm A B ! i ! t * C ! t ! j) [0..<p]) [0..<n]"
    by (rule mm_entries [OF AB assms(3,5)])
  also have "\<dots> = map (\<lambda>i. map (\<lambda>j. \<Sum>l<k. A ! i ! l * mm B C ! l ! j) [0..<p]) [0..<n]"
  proof (intro map_cong refl)
    fix i j assume ij: "i \<in> set [0..<n]" "j \<in> set [0..<p]"
    have "(\<Sum>t<m. mm A B ! i ! t * C ! t ! j) = (\<Sum>t<m. \<Sum>l<k. A ! i ! l * B ! l ! t * C ! t ! j)"
      using ij by (intro sum.cong refl) (simp add: mm_nth [OF assms(1,2,4)] sum_distrib_right)
    also have "\<dots> = (\<Sum>l<k. \<Sum>t<m. A ! i ! l * B ! l ! t * C ! t ! j)"
      by (rule sum.swap)
    also have "\<dots> = (\<Sum>l<k. A ! i ! l * mm B C ! l ! j)"
      using ij by (intro sum.cong refl) (simp add: mm_nth [OF assms(2,3,5)] sum_distrib_left mult.assoc)
    finally show "(\<Sum>t<m. mm A B ! i ! t * C ! t ! j) = (\<Sum>l<k. A ! i ! l * mm B C ! l ! j)" .
  qed
  also have "\<dots> = mm A (mm B C)"
    by (rule mm_entries [OF assms(1) BC assms(4), symmetric])
  finally show ?thesis .
qed

lemma identity_is_matrix: "is_matrix k k (identity_matrix k)"
  by (simp add: identity_matrix_def is_matrix_def list_all_iff)

lemma mm_identity_left:
  assumes "is_matrix k m R" "0 < k"
  shows "mm (identity_matrix k) R = R"
proof -
  have "mm (identity_matrix k) R =
      map (\<lambda>i. map (\<lambda>j. \<Sum>l<k. identity_matrix k ! i ! l * R ! l ! j) [0..<m]) [0..<k]"
    by (rule mm_entries [OF identity_is_matrix assms])
  also have "\<dots> = map (\<lambda>i. map (\<lambda>j. R ! i ! j) [0..<m]) [0..<k]"
  proof (intro map_cong refl)
    fix i j assume ij: "i \<in> set [0..<k]" "j \<in> set [0..<m]"
    have "(\<Sum>l<k. identity_matrix k ! i ! l * R ! l ! j) = (\<Sum>l<k. if l = i then R ! l ! j else 0)"
      using ij by (intro sum.cong refl) (simp add: identity_matrix_def)
    also have "\<dots> = R ! i ! j" using ij by (simp add: sum.delta)
    finally show "(\<Sum>l<k. identity_matrix k ! i ! l * R ! l ! j) = R ! i ! j" .
  qed
  also have "\<dots> = R"
  proof -
    have "map (\<lambda>j. R ! i ! j) [0..<m] = R ! i" if "i < k" for i
      using is_matrix_row [OF assms(1) that] map_nth [of "R ! i"] by simp
    then have "map (\<lambda>i. map (\<lambda>j. R ! i ! j) [0..<m]) [0..<k] = map (\<lambda>i. R ! i) [0..<k]"
      by (intro map_cong refl) simp
    also have "\<dots> = R"
      using assms(1) map_nth [of R] by (simp add: is_matrix_def)
    finally show ?thesis .
  qed
  finally show ?thesis .
qed

lemma LHS_plus_eq: "LHS_plus lhs = Some (tmap (\<lambda>a. a + 0.1) lhs)"
proof -
  have "mul (ones_like lhs) (Sc 0.1) = Some (tmap (\<lambda>a. 0.1) lhs)"
    by (simp add: mul_def ones_like_def broadcast_scalar tmap_tmap)
  moreover have "add lhs (tmap (\<lambda>a. 0.1) lhs) = Some (tmap (\<lambda>a. a + 0.1) lhs)"
    by (simp add: add_def broadcast_tmap_right broadcast_self)
  ultimately show ?thesis by (simp add: LHS_plus_def)
qed

lemma is_matrix_rect:
  "is_matrix r c A \<Longrightarrow> 0 < r \<Longrightarrow> A \<noteq> [] \<and> list_all (\<lambda>row. length row = length (hd A)) A \<and> length (hd A) = c"
  by (cases A) (auto simp: is_matrix_def list_all_iff)

lemma matmul_is_matrix:
  assumes "is_matrix r k A" "is_matrix k c B" "0 < r" "0 < k"
  shows "matmul (of_mat A) (of_mat B) = Some (of_mat (mm A B))"
  using is_matrix_rect [OF assms(1,3)] is_matrix_rect [OF assms(2,4)] assms(2)
  by (intro matmul_of_mat) (auto simp: is_matrix_def)

lemma dim_batch: "As \<noteq> [] \<Longrightarrow> hd As \<noteq> [] \<Longrightarrow> dim (batch As) = 3"
  using dim_of_mat [of "hd As"] by (cases As) (simp_all add: batch_def)

lemma those_map_zip_Some:
  "length xs = length ys \<Longrightarrow> (\<And>i. i < length xs \<Longrightarrow> f (xs ! i) (ys ! i) = Some (g (xs ! i) (ys ! i))) \<Longrightarrow>
   those (map (\<lambda>(a, b). f a b) (zip xs ys)) = Some (map (\<lambda>(a, b). g a b) (zip xs ys))"
proof (induction xs ys rule: list_induct2)
  case Nil
  show ?case by simp
next
  case (Cons x xs y ys)
  have "f x y = Some (g x y)" using Cons.prems [of 0] by simp
  moreover have "those (map (\<lambda>(a, b). f a b) (zip xs ys)) = Some (map (\<lambda>(a, b). g a b) (zip xs ys))"
    using Cons.prems [of "Suc i" for i] by (intro Cons.IH) simp
  ultimately show ?case by simp
qed

lemma matmul_batch:
  assumes "is_batch n r k As" "is_batch n k c Bs" "0 < n" "0 < r" "0 < k"
  shows "matmul (batch As) (batch Bs) = Some (batch (map (\<lambda>(A, B). mm A B) (zip As Bs)))"
proof -
  have len: "length As = n" "length Bs = n"
    using assms by (simp_all add: is_batch_def)
  have mats: "is_matrix r k (As ! i)" "is_matrix k c (Bs ! i)" if "i < n" for i
    using assms that by (simp_all add: is_batch_def list_all_length)
  have ne: "As \<noteq> []" "Bs \<noteq> []" using len assms(3) by auto
  have "hd As \<noteq> []" "hd Bs \<noteq> []"
    using mats [of 0] assms(3,4,5) ne by (auto simp: hd_conv_nth is_matrix_def)
  then have d: "dim (batch As) = 3" "dim (batch Bs) = 3"
    using ne by (simp_all add: dim_batch)
  have el: "those (map (\<lambda>(a, b). matmul a b) (zip (map of_mat As) (map of_mat Bs))) =
      Some (map (\<lambda>(a, b). of_mat (mm a b)) (zip As Bs))"
  proof -
    have "those (map (\<lambda>(A, B). matmul (of_mat A) (of_mat B)) (zip As Bs)) =
        Some (map (\<lambda>(A, B). of_mat (mm A B)) (zip As Bs))"
    proof (rule those_map_zip_Some)
      show "length As = length Bs" using len by simp
    next
      fix i assume "i < length As"
      then have "i < n" using len by simp
      then show "matmul (of_mat (As ! i)) (of_mat (Bs ! i)) = Some (of_mat (mm (As ! i) (Bs ! i)))"
        using matmul_is_matrix [OF mats(1) mats(2) assms(4,5)] by simp
    qed
    then show ?thesis
      by (simp add: zip_map_map o_def split_def del: map_eq_conv)
  qed
  show ?thesis
    using d len el by (simp add: batch_def split_def)
qed

lemma batch_solve:
  assumes L: "is_batch n k k Ls" and I: "is_batch n k k Is" and R: "is_batch n k m Rs"
    and pos: "0 < n" "0 < k"
    and inv: "list_all (\<lambda>(L, I). mm L I = identity_matrix k) (zip Ls Is)"
    and lam: "matmul (batch Is) (batch Rs) = Some lam"
  shows "matmul (batch Ls) lam = Some (batch Rs)"
proof -
  have len: "length Ls = n" "length Is = n" "length Rs = n"
    using L I R by (simp_all add: is_batch_def)
  have mats: "is_matrix k k (Ls ! i)" "is_matrix k k (Is ! i)" "is_matrix k m (Rs ! i)" if "i < n" for i
    using L I R that by (simp_all add: is_batch_def list_all_length)
  have lam_eq: "lam = batch (map (\<lambda>(A, B). mm A B) (zip Is Rs))"
    using matmul_batch [OF I R pos(1) pos(2) pos(2)] lam by simp
  have IR: "is_batch n k m (map (\<lambda>(A, B). mm A B) (zip Is Rs))"
    using len mats pos mm_is_matrix [of k k _ m] by (simp add: is_batch_def list_all_length)
  have "map (\<lambda>(A, B). mm A B) (zip Ls (map (\<lambda>(A, B). mm A B) (zip Is Rs))) = Rs"
  proof (rule nth_equalityI)
    show "length (map (\<lambda>(A, B). mm A B) (zip Ls (map (\<lambda>(A, B). mm A B) (zip Is Rs)))) = length Rs"
      using len by simp
  next
    fix i assume "i < length (map (\<lambda>(A, B). mm A B) (zip Ls (map (\<lambda>(A, B). mm A B) (zip Is Rs))))"
    then have i: "i < n" using len by simp
    have "mm (Ls ! i) (Is ! i) = identity_matrix k"
      using inv i len by (simp add: list_all_length)
    then have "mm (Ls ! i) (mm (Is ! i) (Rs ! i)) = Rs ! i"
      using mm_assoc [OF mats(1) [OF i] mats(2) [OF i] mats(3) [OF i] pos(2) pos(2)]
        mm_identity_left [OF mats(3) [OF i] pos(2)] by simp
    then show "map (\<lambda>(A, B). mm A B) (zip Ls (map (\<lambda>(A, B). mm A B) (zip Is Rs))) ! i = Rs ! i"
      using i len by simp
  qed
  then show ?thesis
    using matmul_batch [OF L IR pos(1) pos(2) pos(2)] by (simp add: lam_eq)
qed

subsection \<open>The local variables of \<^verbatim>\<open>time_derivative\<close>\<close>

lemma time_derivative_locals_SomeD:
  assumes "fst (time_derivative_locals grad torch_inverse self x) = Some l"
  obtains bs q p dH Mt Li Al where
    "shape0 x = Some bs" "chunk2 x = Some (q, p)" "M_q_inv_of bs = Some (M_q_inv l)"
    "grad (\<lambda>y. map_option tsum (time_derivative_H self y)) x = Some dH"
    "torch_t (M self) = Some Mt" "matmul dH Mt = Some (H_vector_field l)"
    "chunk2 dH = Some (dHdq l, dHdp l)"
    "A_net self q = Some (A_q l)" "transpose12 (A_q l) = Some (A_T_q l)"
    "fst (get_jacobian grad self q (A_T_M_inv_p_of self p (M_q_inv l))) = Some (dA_T_M_inv_p_dq l)"
    "RHS_of (A_T_q l) (M_q_inv l) (dHdq l) (dHdp l) (dA_T_M_inv_p_dq l) = Some (RHS l)"
    "LHS_of (A_T_q l) (M_q_inv l) (A_q l) = Some (LHS l)"
    "LHS_plus (LHS l) = Some (LHS' l)"
    "torch_inverse (LHS' l) = Some Li" "matmul Li (RHS l) = Some (lambd l)"
    "matmul (A_q l) (lambd l) = Some Al" "con_force l = squeeze Al"
    "cat1 (zeros_like (con_force l)) (con_force l) = Some (con_force_vector_field l)"
proof -
  let ?pre = "do {
              bs \<leftarrow> shape0 x;
              (q, p) \<leftarrow> chunk2 x;
              Mi \<leftarrow> M_q_inv_of bs;
              H \<leftarrow> time_derivative_H self x;
              dH \<leftarrow> grad (\<lambda>y. map_option tsum (time_derivative_H self y)) x;
              Mt \<leftarrow> torch_t (M self);
              Hvf \<leftarrow> matmul dH Mt;
              (dq, dp) \<leftarrow> chunk2 dH;
              A \<leftarrow> A_net self q;
              A_T \<leftarrow> transpose12 A;
              Some (q, p, Mi, Hvf, dq, dp, A, A_T)
            }"
  from assms obtain q p Mi Hvf dq dp A A_T where pre: "?pre = Some (q, p, Mi, Hvf, dq, dp, A, A_T)"
    and post: "do {
                 J \<leftarrow> fst (get_jacobian grad self q (A_T_M_inv_p_of self p Mi));
                 rhs \<leftarrow> RHS_of A_T Mi dq dp J;
                 lhs \<leftarrow> LHS_of A_T Mi A;
                 lhs' \<leftarrow> LHS_plus lhs;
                 lhs_inv \<leftarrow> torch_inverse lhs';
                 lam \<leftarrow> matmul lhs_inv rhs;
                 Al \<leftarrow> matmul A lam;
                 cfvf \<leftarrow> cat1 (zeros_like (squeeze Al)) (squeeze Al);
                 Some \<lparr> H_vector_field = Hvf, dHdq = dq, dHdp = dp, A_q = A, A_T_q = A_T,
                        M_q_inv = Mi, dA_T_M_inv_p_dq = J, RHS = rhs, LHS = lhs, LHS' = lhs',
                        lambd = lam, con_force = squeeze Al, con_force_vector_field = cfvf \<rparr>
               } = Some l"
    unfolding time_derivative_locals_def
    by (cases ?pre) (auto simp: case_prod_beta)
  from pre obtain bs dH Mt where
    1: "shape0 x = Some bs" "chunk2 x = Some (q, p)" "M_q_inv_of bs = Some Mi"
      "grad (\<lambda>y. map_option tsum (time_derivative_H self y)) x = Some dH"
      "torch_t (M self) = Some Mt" "matmul dH Mt = Some Hvf"
      "chunk2 dH = Some (dq, dp)" "A_net self q = Some A" "transpose12 A = Some A_T"
    by (auto split: Option.bind_splits prod.splits)
  from post obtain J rhs lhs lhs' Li lam Al cfvf where
    2: "fst (get_jacobian grad self q (A_T_M_inv_p_of self p Mi)) = Some J"
      "RHS_of A_T Mi dq dp J = Some rhs" "LHS_of A_T Mi A = Some lhs" "LHS_plus lhs = Some lhs'"
      "torch_inverse lhs' = Some Li" "matmul Li rhs = Some lam" "matmul A lam = Some Al"
      "cat1 (zeros_like (squeeze Al)) (squeeze Al) = Some cfvf"
      and l: "l = \<lparr> H_vector_field = Hvf, dHdq = dq, dHdp = dp, A_q = A, A_T_q = A_T,
                        M_q_inv = Mi, dA_T_M_inv_p_dq = J, RHS = rhs, LHS = lhs, LHS' = lhs',
                        lambd = lam, con_force = squeeze Al, con_force_vector_field = cfvf \<rparr>"
    by (auto split: Option.bind_splits)
  show ?thesis
    using 1 2 by (intro that [of bs q p dH Mt Li Al]) (simp_all add: l)
qed

subsection \<open>The example run of \<^verbatim>\<open>time_derivative\<close>\<close>

lemma ex_H: "time_derivative_H ex_pend ex_x = Some (of_mat [[7, 10], [2, 5]])"
  by code_simp

lemma ex_dH: "central_difference_grad (\<lambda>y. map_option tsum (time_derivative_H ex_pend y)) ex_x =
   Some (of_mat [[2, 2, 2, 4, 0, 0], [2, 2, 2, 0, 4, 12]])"
  by code_simp

lemma ex_chunk: "chunk2 ex_x = Some (ex_q, ex_p)"
  by code_simp

lemma ex_Mi: "M_q_inv_of 2 = Some (M_q_inv ex_locals)"
  by code_simp

lemma ex_dH': "central_difference_grad (\<lambda>y. map_option tsum (time_derivative_H ex_pend y)) ex_x = Some ex_dH_val"
  by code_simp

lemma ex_Mt: "torch_t (M ex_pend) = Some (neg (M ex_pend))"
  by code_simp

lemma ex_Hvf: "matmul ex_dH_val (neg (M ex_pend)) = Some (H_vector_field ex_locals)"
  by code_simp

lemma ex_chunk_dH: "chunk2 ex_dH_val = Some (dHdq ex_locals, dHdp ex_locals)"
  by code_simp

lemma ex_A: "A_net ex_pend ex_q = Some (A_q ex_locals)"
  by code_simp

lemma ex_AT: "transpose12 (A_q ex_locals) = Some (A_T_q ex_locals)"
  by code_simp

lemma ex_out: "A_T_M_inv_p_of ex_pend ex_p (M_q_inv ex_locals) ex_q = Some (batch [[[1], [0]], [[0], [1]]])"
  by code_simp

lemma ex_jac: "fst (get_jacobian central_difference_grad ex_pend ex_q (A_T_M_inv_p_of ex_pend ex_p (M_q_inv ex_locals))) =
    Some (dA_T_M_inv_p_dq ex_locals)"
  by code_simp

lemma ex_RHS: "RHS_of (A_T_q ex_locals) (M_q_inv ex_locals) (dHdq ex_locals) (dHdp ex_locals) (dA_T_M_inv_p_dq ex_locals) = Some (RHS ex_locals)"
  by code_simp

lemma ex_LHS: "LHS_of (A_T_q ex_locals) (M_q_inv ex_locals) (A_q ex_locals) = Some (LHS ex_locals)"
  by code_simp

lemma ex_LHS': "LHS_plus (LHS ex_locals) = Some (LHS' ex_locals)"
  by code_simp

lemma ex_inv: "batch_inverse_2x2 (LHS' ex_locals) = Some ex_LHS_inv"
  by code_simp

lemma ex_lambd: "matmul ex_LHS_inv (RHS ex_locals) = Some (lambd ex_locals)"
  by code_simp

lemma ex_Al_eq: "matmul (A_q ex_locals) (lambd ex_locals) = Some ex_Al"
  by code_simp

lemma ex_cf: "squeeze ex_Al = con_force ex_locals"
  by code_simp

lemma ex_cfvf: "cat1 (zeros_like (con_force ex_locals)) (con_force ex_locals) = Some (con_force_vector_field ex_locals)"
  by code_simp

lemma ex_shape0: "shape0 ex_x = Some 2"
  by code_simp

lemma ex_jac_pair:
  "get_jacobian central_difference_grad ex_pend ex_q (A_T_M_inv_p_of ex_pend ex_p (M_q_inv ex_locals)) =
     (Some (dA_T_M_inv_p_dq ex_locals), ex_pend)"
  using ex_jac by (simp add: get_jacobian_def)

lemma ex_record: "\<lparr> H_vector_field = H_vector_field ex_locals, dHdq = dHdq ex_locals,
    dHdp = dHdp ex_locals, A_q = A_q ex_locals, A_T_q = A_T_q ex_locals,
    M_q_inv = M_q_inv ex_locals, dA_T_M_inv_p_dq = dA_T_M_inv_p_dq ex_locals, RHS = RHS ex_locals,
    LHS = LHS ex_locals, LHS' = LHS' ex_locals, lambd = lambd ex_locals,
    con_force = con_force ex_locals, con_force_vector_field = con_force_vector_field ex_locals \<rparr> = ex_locals"
  by simp

lemma ex_locals_eq:
  "fst (time_derivative_locals central_difference_grad batch_inverse_2x2 ex_pend ex_x) = Some ex_locals"
  unfolding time_derivative_locals_def
  by (simp add: ex_shape0 ex_chunk ex_Mi ex_H ex_dH' ex_Mt ex_Hvf ex_chunk_dH ex_A ex_AT
      ex_jac_pair ex_RHS ex_LHS ex_LHS' ex_inv ex_lambd ex_Al_eq ex_cf ex_cfvf)

subsection \<open>Elementwise sums, chunks and concatenations of matrices\<close>

lemma those_map_Some_nth:
  "(\<And>i. i < length xs \<Longrightarrow> h (xs ! i) = Some (g (xs ! i))) \<Longrightarrow> those (map h xs) = Some (map g xs)"
  by (intro those_map_cong_Some) (auto simp: in_set_conv_nth)

lemma broadcast_of_vec:
  assumes "length u = length v"
  shows "broadcast f (of_vec u) (of_vec v) = Some (of_vec (map (\<lambda>(a, b). f a b) (zip u v)))"
proof -
  have "those (map (\<lambda>(a, b). broadcast f a b) (zip (map Sc u) (map Sc v))) =
      Some (map (\<lambda>(a, b). Sc (f a b)) (zip u v))"
    by (simp add: zip_map_map o_def split_def those_map_Some del: map_eq_conv)
  then show ?thesis
    using assms dim_of_vec [of u] dim_of_vec [of v]
    by (simp add: of_vec_def o_def split_def)
qed

lemma broadcast_of_mat:
  assumes "is_matrix n w A" "is_matrix n w B" "0 < n"
  shows "broadcast f (of_mat A) (of_mat B) =
    Some (of_mat (map (\<lambda>(r, s). map (\<lambda>(a, b). f a b) (zip r s)) (zip A B)))"
proof -
  have len: "length A = n" "length B = n"
    using assms by (simp_all add: is_matrix_def)
  have ne: "A \<noteq> []" "B \<noteq> []" using len assms(3) by auto
  have rows: "those (map (\<lambda>(a, b). broadcast f a b) (zip (map of_vec A) (map of_vec B))) =
      Some (map (\<lambda>(r, s). of_vec (map (\<lambda>(a, b). f a b) (zip r s))) (zip A B))"
  proof -
    have "those (map (\<lambda>(r, s). broadcast f (of_vec r) (of_vec s)) (zip A B)) =
        Some (map (\<lambda>(r, s). of_vec (map (\<lambda>(a, b). f a b) (zip r s))) (zip A B))"
    proof (rule those_map_zip_Some)
      show "length A = length B" using len by simp
    next
      fix i assume "i < length A"
      then have "length (A ! i) = length (B ! i)"
        using is_matrix_row [OF assms(1)] is_matrix_row [OF assms(2)] len by simp
      then show "broadcast f (of_vec (A ! i)) (of_vec (B ! i)) =
          Some (of_vec (map (\<lambda>(a, b). f a b) (zip (A ! i) (B ! i))))"
        by (rule broadcast_of_vec)
    qed
    then show ?thesis
      by (simp add: zip_map_map o_def split_def del: map_eq_conv)
  qed
  show ?thesis
    using rows len dim_of_mat [OF ne(1)] dim_of_mat [OF ne(2)]
    by (simp add: of_mat_def o_def split_def)
qed

lemma chunk2_of_mat:
  assumes "is_matrix n w A" "0 < n" "2 \<le> w"
  shows "chunk2 (of_mat A) =
    Some (of_mat (map (take ((w + 1) div 2)) A), of_mat (map (drop ((w + 1) div 2)) A))"
proof -
  have ne: "A \<noteq> []" using assms by (auto simp: is_matrix_def)
  have hd: "length (hd A) = w"
    using is_matrix_rect [OF assms(1,2)] by simp
  have "children (hd (children (of_mat A))) = map Sc (hd A)"
    using ne by (cases A) (simp_all add: of_mat_def of_vec_def)
  then have k: "length (children (hd (children (of_mat A)))) = w"
    using hd by simp
  have all: "list_all (\<lambda>r. length (children r) = w) (children (of_mat A))"
    using assms(1) by (simp add: of_mat_def of_vec_def is_matrix_def list_all_iff)
  show ?thesis
    unfolding chunk2_def Let_def k
    using all assms(3) dim_of_mat [OF ne]
    by (simp add: of_mat_def of_vec_def o_def take_map drop_map)
qed

lemma zeros_like_of_vec: "zeros_like (of_vec r) = of_vec (replicate (length r) 0)"
  by (simp add: zeros_like_def of_vec_def o_def map_replicate_const)

lemma cat0_of_vec: "cat0 (of_vec u) (of_vec v) = Some (of_vec (u @ v))"
  using dim_of_vec [of u] dim_of_vec [of v]
  by (simp add: cat0_def shape_of_vec) (simp add: of_vec_def)

lemma cat1_zeros_of_mat:
  assumes "is_matrix n k F" "0 < n"
  shows "cat1 (zeros_like (of_mat F)) (of_mat F) = Some (of_mat (map (\<lambda>r. replicate k 0 @ r) F))"
proof -
  have ne: "F \<noteq> []" using assms by (auto simp: is_matrix_def)
  have z: "zeros_like (of_mat F) = of_mat (map (\<lambda>r. replicate k 0) F)"
  proof -
    have "map (\<lambda>r. zeros_like (of_vec r)) F = map (\<lambda>r. of_vec (replicate k 0)) F"
      using assms(1) by (intro map_cong refl) (simp add: zeros_like_of_vec is_matrix_def list_all_iff)
    then show ?thesis
      by (simp add: zeros_like_def of_mat_def o_def del: map_eq_conv)
  qed
  have "those (map (\<lambda>(r, s). cat0 r s) (zip (map (\<lambda>r. of_vec (replicate k 0)) F) (map of_vec F))) =
      Some (map (\<lambda>r. of_vec (replicate k 0 @ r)) F)"
    by (simp add: zip_map_map zip_same_conv_map o_def cat0_of_vec those_map_Some)
  then show ?thesis
    unfolding z using ne dim_of_mat [of F] dim_of_mat [of "map (\<lambda>r. replicate k 0) F"]
    by (simp add: cat1_def of_mat_def o_def)
qed

lemma take_zip_add_zeros:
  fixes h :: "real list"
  assumes "length h = 2 * k" "length f = k"
  shows "take k (map (\<lambda>(a, b). a + b) (zip h (replicate k 0 @ f))) = take k h"
    and "drop k (map (\<lambda>(a, b). a + b) (zip h (replicate k 0 @ f))) =
         map (\<lambda>(a, b). a + b) (zip (drop k h) f)"
proof -
  have h: "h = take k h @ drop k h" by simp
  have lt: "length (take k h) = k" using assms by simp
  have "zip h (replicate k 0 @ f) = zip (take k h) (replicate k 0) @ zip (drop k h) f"
    using zip_append [of "take k h" "replicate k 0" "drop k h" f] lt by simp
  then have eq: "map (\<lambda>(a, b). a + b) (zip h (replicate k 0 @ f)) =
      map (\<lambda>(a, b). a + b) (zip (take k h) (replicate k 0)) @ map (\<lambda>(a, b). a + b) (zip (drop k h) f)"
    by simp
  have z: "map (\<lambda>(a, b). a + b) (zip (take k h) (replicate k (0::real))) = take k h"
    using lt by (intro nth_equalityI) simp_all
  show "take k (map (\<lambda>(a, b). a + b) (zip h (replicate k 0 @ f))) = take k h"
    unfolding eq z using lt by simp
  show "drop k (map (\<lambda>(a, b). a + b) (zip h (replicate k 0 @ f))) =
         map (\<lambda>(a, b). a + b) (zip (drop k h) f)"
    unfolding eq z using lt by simp
qed

lemma entries_zeros_like: "list_all (\<lambda>a. a = 0) (entries (zeros_like c))"
  by (simp add: zeros_like_def entries_tmap list_all_iff)

lemma zeros_like_of_mat:
  "is_matrix n k F \<Longrightarrow> zeros_like (of_mat F) = of_mat (map (\<lambda>r. replicate k 0) F)"
proof -
  assume "is_matrix n k F"
  then have "map (\<lambda>r. zeros_like (of_vec r)) F = map (\<lambda>r. of_vec (replicate k 0)) F"
    by (intro map_cong refl) (simp add: zeros_like_of_vec is_matrix_def list_all_iff)
  then show ?thesis
    by (simp add: zeros_like_def of_mat_def o_def del: map_eq_conv)
qed

lemma constraint_force_matrix:
  assumes H: "is_matrix n (2 * k) H" and F: "is_matrix n k F" and pos: "0 < n" "0 < k"
  shows "cat1 (zeros_like (of_mat F)) (of_mat F) = Some (of_mat (map (\<lambda>r. replicate k 0 @ r) F))"
    and "chunk2 (of_mat (map (\<lambda>r. replicate k 0 @ r) F)) = Some (zeros_like (of_mat F), of_mat F)"
    and "\<exists>r rp. add (of_mat H) (of_mat (map (\<lambda>r. replicate k 0 @ r) F)) = Some r \<and>
           chunk2 (of_mat H) = Some (of_mat (map (take k) H), of_mat (map (drop k) H)) \<and>
           chunk2 r = Some (of_mat (map (take k) H), rp) \<and>
           add (of_mat (map (drop k) H)) (of_mat F) = Some rp"
proof -
  let ?C = "map (\<lambda>r. replicate k 0 @ r) F"
  let ?R = "map (\<lambda>(r, s). map (\<lambda>(a, b). a + b) (zip r s)) (zip H ?C)"
  have len: "length H = n" "length F = n"
    using H F by (simp_all add: is_matrix_def)
  have rowsH: "length (H ! i) = 2 * k" and rowsF: "length (F ! i) = k" if "i < n" for i
    using is_matrix_row [OF H that] is_matrix_row [OF F that] by simp_all
  have C: "is_matrix n (2 * k) ?C"
    using F by (simp add: is_matrix_def list_all_iff)
  have R: "is_matrix n (2 * k) ?R"
    using len rowsH rowsF by (simp add: is_matrix_def list_all_length)
  have half: "(2 * k + 1) div 2 = k" by simp
  have two: "2 \<le> 2 * k" using pos by simp
  show c1: "cat1 (zeros_like (of_mat F)) (of_mat F) = Some (of_mat ?C)"
    by (rule cat1_zeros_of_mat [OF F pos(1)])
  have tC: "map (take k) ?C = map (\<lambda>r. replicate k 0) F"
    by (simp add: o_def)
  have dC: "map (drop k) ?C = F"
    by (simp add: o_def)
  show "chunk2 (of_mat ?C) = Some (zeros_like (of_mat F), of_mat F)"
    using chunk2_of_mat [OF C pos(1) two] by (simp only: half tC dC zeros_like_of_mat [OF F])
  have add: "add (of_mat H) (of_mat ?C) = Some (of_mat ?R)"
    unfolding add_def by (rule broadcast_of_mat [OF H C pos(1)])
  have tR: "map (take k) ?R = map (take k) H"
  proof (rule nth_equalityI)
    show "length (map (take k) ?R) = length (map (take k) H)" using len by simp
  next
    fix i assume "i < length (map (take k) ?R)"
    then have i: "i < n" using len by simp
    show "map (take k) ?R ! i = map (take k) H ! i"
      using i len take_zip_add_zeros(1) [OF rowsH [OF i] rowsF [OF i]] by simp
  qed
  have dR: "map (drop k) ?R = map (\<lambda>(r, s). map (\<lambda>(a, b). a + b) (zip r s)) (zip (map (drop k) H) F)"
  proof (rule nth_equalityI)
    show "length (map (drop k) ?R) =
        length (map (\<lambda>(r, s). map (\<lambda>(a, b). a + b) (zip r s)) (zip (map (drop k) H) F))"
      using len by simp
  next
    fix i assume "i < length (map (drop k) ?R)"
    then have i: "i < n" using len by simp
    show "map (drop k) ?R ! i =
        map (\<lambda>(r, s). map (\<lambda>(a, b). a + b) (zip r s)) (zip (map (drop k) H) F) ! i"
      using i len take_zip_add_zeros(2) [OF rowsH [OF i] rowsF [OF i]] by simp
  qed
  have dH: "is_matrix n k (map (drop k) H)"
    using H by (simp add: is_matrix_def list_all_iff)
  have addp: "add (of_mat (map (drop k) H)) (of_mat F) = Some (of_mat (map (drop k) ?R))"
    unfolding add_def dR by (rule broadcast_of_mat [OF dH F pos(1)])
  have cH: "chunk2 (of_mat H) = Some (of_mat (map (take k) H), of_mat (map (drop k) H))"
    using chunk2_of_mat [OF H pos(1) two] by (simp only: half)
  have cR: "chunk2 (of_mat ?R) = Some (of_mat (map (take k) H), of_mat (map (drop k) ?R))"
    using chunk2_of_mat [OF R pos(1) two] by (simp only: half tR)
  show "\<exists>r rp. add (of_mat H) (of_mat ?C) = Some r \<and>
           chunk2 (of_mat H) = Some (of_mat (map (take k) H), of_mat (map (drop k) H)) \<and>
           chunk2 r = Some (of_mat (map (take k) H), rp) \<and>
           add (of_mat (map (drop k) H)) (of_mat F) = Some rp"
    using add cH cR addp by blast
qed

lemma time_derivative_locals_nfe:
  "fst (time_derivative_locals grad torch_inverse (self\<lparr>nfe := v\<rparr>) x) =
   fst (time_derivative_locals grad torch_inverse self x)"
proof -
  have H: "time_derivative_H (self\<lparr>nfe := v\<rparr>) = time_derivative_H self"
    by (rule ext) (simp add: time_derivative_H_def)
  have A: "A_T_M_inv_p_of (self\<lparr>nfe := v\<rparr>) = A_T_M_inv_p_of self"
    by (intro ext) (simp add: A_T_M_inv_p_of_def)
  show ?thesis
    unfolding time_derivative_locals_def H A
    by (simp add: get_jacobian_def split: option.splits prod.splits)
qed

lemma time_derivative_fst:
  "fst (HNN_structure_pend_time_derivative grad torch_inverse self t x) =
     do { l \<leftarrow> fst (time_derivative_locals grad torch_inverse self x);
          add (H_vector_field l) (con_force_vector_field l) }"
  by (simp add: HNN_structure_pend_time_derivative_def Let_def case_prod_beta
      time_derivative_locals_nfe)

subsection \<open>The Hamiltonian of \<^verbatim>\<open>HNN_structure\<close> on a matrix of states\<close>

lemma tmap_of_vec: "tmap f (of_vec v) = of_vec (map f v)"
  by (simp add: of_vec_def)

lemma tmap_of_mat: "tmap f (of_mat A) = of_mat (map (map f) A)"
  by (simp add: of_mat_def tmap_of_vec)

lemma broadcast_of_vec_single:
  "broadcast f (of_vec r) (of_vec [b]) = Some (of_vec (map (\<lambda>a. f a b) r))"
proof (cases "length r = 1")
  case True
  then obtain a where "r = [a]" by (cases r) auto
  then show ?thesis by (simp add: of_vec_def)
next
  case False
  have "those (map (\<lambda>a. broadcast f a (Sc b)) (map Sc r)) = Some (map (\<lambda>a. Sc (f a b)) r)"
    by (simp add: o_def those_map_Some)
  then show ?thesis
    using False dim_of_vec [of r] by (simp add: of_vec_def o_def)
qed

lemma broadcast_of_mat_column:
  assumes "is_matrix n d A" "is_matrix n 1 B" "0 < n"
  shows "broadcast f (of_mat A) (of_mat B) =
    Some (of_mat (map (\<lambda>(r, s). map (\<lambda>a. f a (hd s)) r) (zip A B)))"
proof -
  have len: "length A = n" "length B = n"
    using assms by (simp_all add: is_matrix_def)
  have ne: "A \<noteq> []" "B \<noteq> []" using len assms(3) by auto
  have rows: "those (map (\<lambda>(a, b). broadcast f a b) (zip (map of_vec A) (map of_vec B))) =
      Some (map (\<lambda>(r, s). of_vec (map (\<lambda>a. f a (hd s)) r)) (zip A B))"
  proof -
    have "those (map (\<lambda>(r, s). broadcast f (of_vec r) (of_vec s)) (zip A B)) =
        Some (map (\<lambda>(r, s). of_vec (map (\<lambda>a. f a (hd s)) r)) (zip A B))"
    proof (rule those_map_zip_Some)
      show "length A = length B" using len by simp
    next
      fix i assume "i < length A"
      then have "length (B ! i) = 1"
        using is_matrix_row [OF assms(2)] len by simp
      then obtain b where b: "B ! i = [b]" by (cases "B ! i") auto
      show "broadcast f (of_vec (A ! i)) (of_vec (B ! i)) =
          Some (of_vec (map (\<lambda>a. f a (hd (B ! i))) (A ! i)))"
        unfolding b by (simp add: broadcast_of_vec_single)
    qed
    then show ?thesis
      by (simp add: zip_map_map o_def split_def del: map_eq_conv)
  qed
  show ?thesis
    using rows len dim_of_mat [OF ne(1)] dim_of_mat [OF ne(2)]
    by (simp add: of_mat_def o_def split_def)
qed

lemma HNN_structure_forward_matrix:
  assumes X: "is_matrix n (2 * d) X" and pos: "0 < n" "0 < d"
    and L: "L_net self (of_mat (map (take d) X)) = Some (of_mat L)" "is_matrix n 1 L"
    and V: "HNN_structure.V_net self (of_mat (map (take d) X)) = Some (of_mat V)" "is_matrix n 1 V"
  shows "\<exists>Hm. fst (HNN_structure_forward self (of_mat X)) = Some (of_mat Hm) \<and> is_matrix n d Hm \<and>
    (\<forall>i<n. \<forall>j<d. Hm ! i ! j =
       X ! i ! (d + j) * X ! i ! (d + j) / (hd (L ! i) * hd (L ! i) + 0.1) / 2 + hd (V ! i))"
proof -
  let ?P = "map (drop d) X"
  let ?PP = "map (map (\<lambda>a. a * a)) ?P"
  let ?Mq = "map (map (\<lambda>l. l * l + 0.1)) L"
  let ?D = "map (\<lambda>(r, s). map (\<lambda>a. a / hd s) r) (zip ?PP ?Mq)"
  let ?K = "map (map (\<lambda>a. a / 2)) ?D"
  let ?H = "map (\<lambda>(r, s). map (\<lambda>a. a + hd s) r) (zip ?K V)"
  have len: "length X = n" "length L = n" "length V = n"
    using X L(2) V(2) by (simp_all add: is_matrix_def)
  have rowX: "length (X ! i) = 2 * d" if "i < n" for i
    using is_matrix_row [OF X that] .
  have half: "(2 * d + 1) div 2 = d" by simp
  have two: "2 \<le> 2 * d" using pos by simp
  have ch: "chunk2 (of_mat X) = Some (of_mat (map (take d) X), of_mat ?P)"
    using chunk2_of_mat [OF X pos(1) two] by (simp only: half)
  have P: "is_matrix n d ?P"
    using X by (simp add: is_matrix_def list_all_iff)
  have PP: "is_matrix n d ?PP"
    using P by (simp add: is_matrix_def list_all_iff)
  have Mq: "is_matrix n 1 ?Mq"
    using L(2) by (simp add: is_matrix_def list_all_iff)
  have D: "is_matrix n d ?D"
    using PP len by (simp add: is_matrix_def list_all_length)
  have K: "is_matrix n d ?K"
    using D by (simp add: is_matrix_def list_all_iff)
  have Hm: "is_matrix n d ?H"
    using K len by (simp add: is_matrix_def list_all_length)
  have mq: "M_q_of (of_mat L) = Some (of_mat ?Mq)"
    by (simp add: M_q_of_eq tmap_of_mat)
  have pp: "mul (of_mat ?P) (of_mat ?P) = Some (of_mat ?PP)"
    by (simp add: mul_def broadcast_self tmap_of_mat)
  have dv: "div_t (of_mat ?PP) (of_mat ?Mq) = Some (of_mat ?D)"
    unfolding div_t_def by (rule broadcast_of_mat_column [OF PP Mq pos(1)])
  have kn: "div_t (of_mat ?D) (Sc 2) = Some (of_mat ?K)"
    by (simp add: div_t_def broadcast_scalar tmap_of_mat)
  have ad: "add (of_mat ?K) (of_mat V) = Some (of_mat ?H)"
    unfolding add_def by (rule broadcast_of_mat_column [OF K V(2) pos(1)])
  have H: "H_of (of_mat ?P) (of_mat ?Mq) (of_mat V) = Some (of_mat ?H)"
    by (simp only: H_of_def pp dv kn ad Option.bind.simps)
  have fw: "fst (HNN_structure_forward self (of_mat X)) = Some (of_mat ?H)"
    by (simp only: HNN_structure_forward_def ch L(1) V(1) mq H Option.bind.simps prod.case fst_conv)
  have ent: "?H ! i ! j =
       X ! i ! (d + j) * X ! i ! (d + j) / (hd (L ! i) * hd (L ! i) + 0.1) / 2 + hd (V ! i)"
    if "i < n" "j < d" for i j
  proof -
    have "length (L ! i) = 1" using is_matrix_row [OF L(2) that(1)] .
    then have "hd (map (\<lambda>l. l * l + 0.1) (L ! i)) = hd (L ! i) * hd (L ! i) + 0.1"
      by (cases "L ! i") simp_all
    then show ?thesis
      using that len rowX [OF that(1)] by simp
  qed
  show ?thesis
    using fw Hm ent by blast
qed

lemma entries_of_mat: "entries (of_mat A) = concat A"
proof -
  have "entries (of_vec v) = v" for v
    by (induction v) (simp_all add: of_vec_def)
  then show ?thesis
    by (simp add: of_mat_def o_def)
qed

lemma length_concat_matrix: "is_matrix n d A \<Longrightarrow> length (concat A) = n * d"
proof (induction A arbitrary: n)
  case Nil
  then show ?case by (simp add: is_matrix_def)
next
  case (Cons r A)
  then have "is_matrix (length A) d A" by (simp add: is_matrix_def)
  then have "length (concat A) = length A * d" by (rule Cons.IH)
  then show ?case using Cons.prems by (auto simp: is_matrix_def)
qed

lemma one_scalar_per_row_matrix:
  assumes "is_matrix n w X" "is_matrix n d Hm" "0 < n"
  shows "one_scalar_per_row (of_mat X) (of_mat Hm) \<longleftrightarrow> d = 1"
proof -
  have "length (children (of_mat X)) = n"
    using assms(1) by (simp add: of_mat_def is_matrix_def)
  then show ?thesis
    using assms(3) length_concat_matrix [OF assms(2)]
    by (simp add: one_scalar_per_row_def entries_of_mat)
qed

lemma ex_structure_forward:
  "fst (HNN_structure_forward ex_structure (of_mat [[2, 3], [1, 2]])) =
     Some (of_mat [[689 / 161], [31 / 11]])"
  by code_simp

lemma ex_structure_forward_wide:
  "fst (HNN_structure_forward ex_structure (of_mat [[1, 2, 3, 4]])) =
     Some (of_mat [[1300 / 251, 1335 / 251]])"
  by code_simp

subsection \<open>The mass network and \<^verbatim>\<open>time_derivative\<close>\<close>

lemma time_derivative_M_net:
  "fst (HNN_structure_pend_time_derivative grad torch_inverse (self\<lparr>M_net := N\<rparr>) t x) =
   fst (HNN_structure_pend_time_derivative grad torch_inverse self t x)"
proof -
  have H: "time_derivative_H (self\<lparr>M_net := N\<rparr>) = time_derivative_H self"
    by (rule ext) (simp add: time_derivative_H_def)
  have A: "A_T_M_inv_p_of (self\<lparr>M_net := N\<rparr>) = A_T_M_inv_p_of self"
    by (intro ext) (simp add: A_T_M_inv_p_of_def)
  have "fst (time_derivative_locals grad torch_inverse (self\<lparr>M_net := N\<rparr>) x) =
      fst (time_derivative_locals grad torch_inverse self x)"
    unfolding time_derivative_locals_def H A
    by (simp add: get_jacobian_def split: option.splits prod.splits)
  then show ?thesis
    by (simp add: time_derivative_fst)
qed

subsection \<open>A run of \<^verbatim>\<open>time_derivative\<close> with constraints that depend on the position\<close>

lemma ex2_H: "time_derivative_H ex2_pend ex2_x = Some (of_mat [[7, 11, 7], [2, 6, 2], [4, 8, 4]])"
  by code_simp

lemma ex2_chunk: "chunk2 ex2_x = Some (ex2_q, ex2_p)"
  by code_simp

lemma ex2_Mi: "M_q_inv_of 3 = Some (M_q_inv ex2_locals)"
  by code_simp

lemma ex2_dH: "central_difference_grad (\<lambda>y. map_option tsum (time_derivative_H ex2_pend y)) ex2_x = Some ex2_dH_val"
  by code_simp

lemma ex2_Mt: "torch_t (M ex2_pend) = Some (neg (M ex2_pend))"
  by code_simp

lemma ex2_Hvf: "matmul ex2_dH_val (neg (M ex2_pend)) = Some (H_vector_field ex2_locals)"
  by code_simp

lemma ex2_chunk_dH: "chunk2 ex2_dH_val = Some (dHdq ex2_locals, dHdp ex2_locals)"
  by code_simp

lemma ex2_A: "A_net ex2_pend ex2_q = Some (A_q ex2_locals)"
  by code_simp

lemma ex2_AT: "transpose12 (A_q ex2_locals) = Some (A_T_q ex2_locals)"
  by code_simp

lemma ex2_out: "A_T_M_inv_p_of ex2_pend ex2_p (M_q_inv ex2_locals) ex2_q = Some (batch [[[1], [0]], [[1], [4]], [[0], [1]]])"
  by code_simp

lemma ex2_jac: "fst (get_jacobian central_difference_grad ex2_pend ex2_q (A_T_M_inv_p_of ex2_pend ex2_p (M_q_inv ex2_locals))) =
    Some (dA_T_M_inv_p_dq ex2_locals)"
  by code_simp

lemma ex2_RHS: "RHS_of (A_T_q ex2_locals) (M_q_inv ex2_locals) (dHdq ex2_locals) (dHdp ex2_locals) (dA_T_M_inv_p_dq ex2_locals) = Some (RHS ex2_locals)"
  by code_simp

lemma ex2_LHS: "LHS_of (A_T_q ex2_locals) (M_q_inv ex2_locals) (A_q ex2_locals) = Some (LHS ex2_locals)"
  by code_simp

lemma ex2_LHS': "LHS_plus (LHS ex2_locals) = Some (LHS' ex2_locals)"
  by code_simp

lemma ex2_inv: "batch_inverse_2x2 (LHS' ex2_locals) = Some ex2_LHS_inv"
  by code_simp

lemma ex2_lambd: "matmul ex2_LHS_inv (RHS ex2_locals) = Some (lambd ex2_locals)"
  by code_simp

lemma ex2_Al_eq: "matmul (A_q ex2_locals) (lambd ex2_locals) = Some ex2_Al"
  by code_simp

lemma ex2_cf: "squeeze ex2_Al = con_force ex2_locals"
  by code_simp

lemma ex2_cfvf: "cat1 (zeros_like (con_force ex2_locals)) (con_force ex2_locals) = Some (con_force_vector_field ex2_locals)"
  by code_simp

lemma ex2_shape0: "shape0 ex2_x = Some 3"
  by code_simp

lemma ex2_jac_pair:
  "get_jacobian central_difference_grad ex2_pend ex2_q (A_T_M_inv_p_of ex2_pend ex2_p (M_q_inv ex2_locals)) =
     (Some (dA_T_M_inv_p_dq ex2_locals), ex2_pend)"
  using ex2_jac by (simp add: get_jacobian_def)

lemma ex2_locals_eq:
  "fst (time_derivative_locals central_difference_grad batch_inverse_2x2 ex2_pend ex2_x) = Some ex2_locals"
  unfolding time_derivative_locals_def
  by (simp add: ex2_shape0 ex2_chunk ex2_Mi ex2_H ex2_dH ex2_Mt ex2_Hvf ex2_chunk_dH ex2_A ex2_AT
      ex2_jac_pair ex2_RHS ex2_LHS ex2_LHS' ex2_inv ex2_lambd ex2_Al_eq ex2_cf ex2_cfvf)

lemma ex2_LHS'_batch:
  "LHS' ex2_locals = batch [[[41 / 10, 61 / 10], [61 / 10, 131 / 10]], [[11 / 10, 1 / 10], [1 / 10, 41 / 10]],
            [[131 / 10, 1 / 10], [1 / 10, 11 / 10]]]"
  by (simp add: ex2_locals_def)

lemma ex2_RHS_batch: "RHS ex2_locals = batch [[[12], [21]], [[- 15], [- 6]], [[21], [3]]]"
  by (simp add: ex2_locals_def)

lemma ex2_is_inverse:
  "list_all (\<lambda>(L, I). mm L I = identity_matrix 2)
     (zip [[[41 / 10, 61 / 10], [61 / 10, 131 / 10]], [[11 / 10, 1 / 10], [1 / 10, 41 / 10]],
            [[131 / 10, 1 / 10], [1 / 10, 11 / 10]]]
          [[[131 / 165, - 61 / 165], [- 61 / 165, 41 / 165]], [[41 / 45, - 1 / 45], [- 1 / 45, 11 / 45]],
            [[11 / 144, - 1 / 144], [- 1 / 144, 131 / 144]]])"
  by code_simp

lemma ex2_claimed_lhs:
  "matmul (LHS ex2_locals) (lambd ex2_locals) =
     Some (batch [[[646 / 55], [1141 / 55]], [[- 203 / 15], [- 68 / 15]], [[247 / 12], [31 / 12]]])"
  by code_simp

lemma ex2_sum:
  "add (H_vector_field ex2_locals) (con_force_vector_field ex2_locals) =
     Some (of_mat [[6, 0, 0, - 68 / 55, - 122 / 55, 18 / 55], [6, 6, 18, - 248 / 15, - 62 / 15, - 62 / 15],
             [0, 6, 0, - 17 / 12, - 5 / 12, 1 / 6]])"
  by code_simp

lemma ex2_time_derivative_value:
  "fst (HNN_structure_pend_time_derivative central_difference_grad batch_inverse_2x2 ex2_pend t ex2_x) =
     Some (of_mat [[6, 0, 0, - 68 / 55, - 122 / 55, 18 / 55], [6, 6, 18, - 248 / 15, - 62 / 15, - 62 / 15],
             [0, 6, 0, - 17 / 12, - 5 / 12, 1 / 6]])"
  by (simp add: time_derivative_fst ex2_locals_eq ex2_sum)

lemma ex2_diag_grad:
  "central_difference_grad (\<lambda>y. map_option diag_sum (time_derivative_H ex2_pend y)) ex2_x =
     Some (of_mat [[1, 1, 1, 2, 0, 0], [1, 1, 1, 2, 2, 6], [1, 1, 1, 0, 2, 0]])"
  by code_simp

lemma ex2_diag_chunk:
  "chunk2 (of_mat [[1, 1, 1, 2, 0, 0], [1, 1, 1, 2, 2, 6], [1, 1, 1, 0, 2, 0]]) =
     Some (of_mat [[1, 1, 1], [1, 1, 1], [1, 1, 1]], of_mat [[2, 0, 0], [2, 2, 6], [0, 2, 0]])"
  by code_simp

lemma ex2_diag_RHS:
  "RHS_of (A_T_q ex2_locals) (M_q_inv ex2_locals) (of_mat [[1, 1, 1], [1, 1, 1], [1, 1, 1]])
     (of_mat [[2, 0, 0], [2, 2, 6], [0, 2, 0]]) (dA_T_M_inv_p_dq ex2_locals) =
     Some (batch [[[4], [7]], [[- 5], [- 2]], [[7], [1]]])"
  by code_simp

lemma ex2_forward:
  "fst (HNN_structure_pend_forward ex2_pend ex2_x) =
     Some (batch [[[10, 8, 8], [3, 5, 3], [5, 5, 5]], [[10, 8, 8], [3, 5, 3], [5, 5, 5]],
            [[10, 8, 8], [3, 5, 3], [5, 5, 5]]])"
  by code_simp

lemma ex2_forward_grad:
  "central_difference_grad (\<lambda>y. map_option tsum (fst (HNN_structure_pend_forward ex2_pend y))) ex2_x =
     Some (of_mat [[9, 9, 9, 12, 12, 12], [9, 9, 9, 36, 36, 36], [9, 9, 9, 12, 12, 12]])"
  by code_simp

subsection \<open>The vector field of \<^verbatim>\<open>HNN\<close>\<close>

text \<open>
  What the constructor leaves in the module, for every setting of the flags.
\<close>

lemma HNN_init_SomeD:
  assumes "HNN_init input_dim model dev bl acc dmp dN = Some self0"
  obtains P where
    "fst (permutation_tensor self0 input_dim) = Some P"
    "self0 = \<lparr> assume_canonical_coords = acc, device = dev, M = P, nfe = 0, baseline = bl,
               differentiale_model = model, damp = dmp,
               dampNet = (if dmp then dN else None) \<rparr>"
proof -
  let ?s = "\<lparr> assume_canonical_coords = acc, device = dev,
                    M = Tn [], nfe = 0, baseline = bl,
                    differentiale_model = model, damp = False, dampNet = None \<rparr>"
  from assms obtain P where P: "fst (permutation_tensor ?s input_dim) = Some P"
    and self: "self0 = ?s \<lparr> M := P, nfe := 0, damp := dmp, dampNet := (if dmp then dN else None) \<rparr>"
    by (auto simp: HNN_init_def Let_def case_prod_beta permutation_tensor_self
        split: Option.bind_splits)
  have "fst (permutation_tensor self0 input_dim) = Some P"
    using P permutation_tensor_reads [of self0 ?s input_dim] by (simp add: self)
  then show ?thesis
    using self by (intro that [of P]) simp_all
qed

text \<open>
  The example module on a batch of two states, with the gradient taken by central differences
  of the function it is given.
\<close>

lemma ex_hnn1_init: "HNN_init 1 energy_net ''cpu'' False True False None = Some ex_hnn1"
  by (simp add: HNN_init_def permutation_tensor_def eye_def cat0_def neg_def ex_hnn1_def
      of_mat_def of_vec_def)

lemma ex_hnn_grad:
  "central_difference_grad
     (\<lambda>y. map_option (\<lambda>H. Sc (sum_list (entries H))) (fst (HNN_forward (ex_hnn \<lparr> nfe := 1 \<rparr>) y)))
     (of_mat [[3, 4], [1, 2]]) = Some (of_mat [[6, 8], [2, 4]])"
  by code_simp

lemma ex_hnn_forward:
  "fst (HNN_forward (ex_hnn \<lparr> nfe := 1 \<rparr>) (of_mat [[3, 4], [1, 2]])) = Some (of_mat [[25], [5]])"
  by code_simp

lemma ex_hnn_rotate:
  "do { Mt \<leftarrow> torch_t (M (ex_hnn \<lparr> nfe := 1 \<rparr>)); matmul (of_mat [[6, 8], [2, 4]]) Mt } =
     Some (of_mat [[8, - 6], [4, - 2]])"
  by code_simp

text \<open>
  C1. In a module whose flags \<^verbatim>\<open>baseline\<close> and \<^verbatim>\<open>damp\<close> are both false, for every time \<open>t\<close> and
  state \<open>x\<close> the result of \<^verbatim>\<open>time_derivative(t, x)\<close> is the gradient at \<open>x\<close> of the sum of all
  entries of \<^verbatim>\<open>forward\<close>, multiplied on the right by the transpose of \<^verbatim>\<open>self.M\<close>; it raises
  exactly when \<^verbatim>\<open>forward\<close>, the gradient, the transposition or the product does. A module
  built by the constructor with \<^verbatim>\<open>baseline=False\<close> and \<^verbatim>\<open>damp=False\<close> is such a module before
  and after any number \<open>k\<close> of calls of \<^verbatim>\<open>time_derivative\<close>: both flags are false, \<^verbatim>\<open>self.M\<close> is
  the tensor \<open>P\<close> that \<^verbatim>\<open>permutation_tensor\<close> returns on the input dimension, \<^verbatim>\<open>forward\<close> is the
  model, and a call of \<^verbatim>\<open>time_derivative\<close> changes the counter only.
\<close>

theorem HNN_time_derivative_symplectic:
  "(\<not> baseline self \<and> \<not> damp self \<longrightarrow>
      fst (HNN_time_derivative grad self t x) =
        do { H \<leftarrow> fst (HNN_forward self x);
             dH \<leftarrow> grad (\<lambda>y. map_option (\<lambda>H. Sc (sum_list (entries H))) (fst (HNN_forward self y))) x;
             Mt \<leftarrow> torch_t (M self);
             matmul dH Mt }) \<and>
   (HNN_init input_dim model dev False acc False dN = Some self0 \<longrightarrow>
      (\<exists>P. fst (permutation_tensor self0 input_dim) = Some P \<and> self0 \<lparr> nfe := 0 \<rparr> = self0 \<and>
         (\<forall>k. \<not> baseline (self0 \<lparr> nfe := k \<rparr>) \<and> \<not> damp (self0 \<lparr> nfe := k \<rparr>) \<and>
              M (self0 \<lparr> nfe := k \<rparr>) = P \<and>
              (\<forall>y. fst (HNN_forward (self0 \<lparr> nfe := k \<rparr>) y) = model y) \<and>
              snd (HNN_time_derivative grad (self0 \<lparr> nfe := k \<rparr>) t x) = self0 \<lparr> nfe := k + 1 \<rparr>)))"
proof (intro conjI impI)
  assume "\<not> baseline self \<and> \<not> damp self"
  then show "fst (HNN_time_derivative grad self t x) =
        do { H \<leftarrow> fst (HNN_forward self x);
             dH \<leftarrow> grad (\<lambda>y. map_option (\<lambda>H. Sc (sum_list (entries H))) (fst (HNN_forward self y))) x;
             Mt \<leftarrow> torch_t (M self);
             matmul dH Mt }"
    by (simp add: HNN_time_derivative_def Let_def HNN_H_sum_model HNN_forward_def tsum_def [abs_def])
next
  assume "HNN_init input_dim model dev False acc False dN = Some self0"
  then obtain P where P: "fst (permutation_tensor self0 input_dim) = Some P"
    and s: "self0 = \<lparr> assume_canonical_coords = acc, device = dev, M = P, nfe = 0,
               baseline = False, differentiale_model = model, damp = False,
               dampNet = (if False then dN else None) \<rparr>"
    by (rule HNN_init_SomeD)
  have "snd (HNN_time_derivative grad (self0 \<lparr> nfe := k \<rparr>) t x) = self0 \<lparr> nfe := k + 1 \<rparr>" for k
    by (simp add: HNN_time_derivative_def HNN_forward_def Let_def)
  then show "\<exists>P. fst (permutation_tensor self0 input_dim) = Some P \<and> self0 \<lparr> nfe := 0 \<rparr> = self0 \<and>
         (\<forall>k. \<not> baseline (self0 \<lparr> nfe := k \<rparr>) \<and> \<not> damp (self0 \<lparr> nfe := k \<rparr>) \<and>
              M (self0 \<lparr> nfe := k \<rparr>) = P \<and>
              (\<forall>y. fst (HNN_forward (self0 \<lparr> nfe := k \<rparr>) y) = model y) \<and>
              snd (HNN_time_derivative grad (self0 \<lparr> nfe := k \<rparr>) t x) = self0 \<lparr> nfe := k + 1 \<rparr>)"
    using P by (intro exI [of _ P]) (simp add: s HNN_forward_def)
qed

theorem HNN_time_derivative_symplectic_witness:
  "HNN_init 2 energy_net ''cpu'' False True False None = Some ex_hnn \<and>
   HNN_init 1 energy_net ''cpu'' False True False None = Some ex_hnn1 \<and>
   \<not> baseline (ex_hnn \<lparr> nfe := 1 \<rparr>) \<and> \<not> damp (ex_hnn \<lparr> nfe := 1 \<rparr>) \<and>
   M (ex_hnn \<lparr> nfe := 1 \<rparr>) = of_mat [[0, 1], [- 1, 0]] \<and>
   fst (permutation_tensor ex_hnn 2) = Some (of_mat [[0, 1], [- 1, 0]]) \<and>
   fst (HNN_forward (ex_hnn \<lparr> nfe := 1 \<rparr>) (of_mat [[3, 4], [1, 2]])) = Some (of_mat [[25], [5]]) \<and>
   central_difference_grad
     (\<lambda>y. map_option (\<lambda>H. Sc (sum_list (entries H))) (fst (HNN_forward (ex_hnn \<lparr> nfe := 1 \<rparr>) y)))
     (of_mat [[3, 4], [1, 2]]) = Some (of_mat [[6, 8], [2, 4]]) \<and>
   fst (HNN_time_derivative central_difference_grad (ex_hnn \<lparr> nfe := 1 \<rparr>) (0::real)
          (of_mat [[3, 4], [1, 2]])) = Some (of_mat [[8, - 6], [4, - 2]]) \<and>
   snd (HNN_time_derivative central_difference_grad (ex_hnn \<lparr> nfe := 1 \<rparr>) (0::real)
          (of_mat [[3, 4], [1, 2]])) = ex_hnn \<lparr> nfe := 2 \<rparr>"
proof -
  have b: "\<not> baseline (ex_hnn \<lparr> nfe := 1 \<rparr>) \<and> \<not> damp (ex_hnn \<lparr> nfe := 1 \<rparr>)"
    by (simp add: ex_hnn_def)
  note T = HNN_time_derivative_symplectic [of "ex_hnn \<lparr> nfe := 1 \<rparr>" central_difference_grad "0::real"
      "of_mat [[3, 4], [1, 2]]" 2 energy_net "''cpu''" True None ex_hnn]
  from T b have td:
    "fst (HNN_time_derivative central_difference_grad (ex_hnn \<lparr> nfe := 1 \<rparr>) (0::real)
          (of_mat [[3, 4], [1, 2]])) =
        do { H \<leftarrow> fst (HNN_forward (ex_hnn \<lparr> nfe := 1 \<rparr>) (of_mat [[3, 4], [1, 2]]));
             dH \<leftarrow> central_difference_grad (\<lambda>y. map_option (\<lambda>H. Sc (sum_list (entries H)))
                    (fst (HNN_forward (ex_hnn \<lparr> nfe := 1 \<rparr>) y))) (of_mat [[3, 4], [1, 2]]);
             Mt \<leftarrow> torch_t (M (ex_hnn \<lparr> nfe := 1 \<rparr>));
             matmul dH Mt }"
    by blast
  from T ex_hnn_init obtain P where P: "fst (permutation_tensor ex_hnn 2) = Some P"
    and all: "\<And>k. M (ex_hnn \<lparr> nfe := k \<rparr>) = P \<and>
      snd (HNN_time_derivative central_difference_grad (ex_hnn \<lparr> nfe := k \<rparr>) (0::real)
          (of_mat [[3, 4], [1, 2]])) = ex_hnn \<lparr> nfe := k + 1 \<rparr>"
    by blast
  have 1: "fst (HNN_time_derivative central_difference_grad (ex_hnn \<lparr> nfe := 1 \<rparr>) (0::real)
          (of_mat [[3, 4], [1, 2]])) = Some (of_mat [[8, - 6], [4, - 2]])"
    unfolding td ex_hnn_forward ex_hnn_grad Option.bind.simps by (rule ex_hnn_rotate)
  have 2: "P = of_mat [[0, 1], [- 1, 0]]"
    using all [of 1] by (simp add: ex_hnn_def)
  show ?thesis
    using b 1 2 P all [of 1] ex_hnn_init ex_hnn1_init ex_hnn_forward ex_hnn_grad by simp
qed

subsection \<open>Time and the call counter\<close>

text \<open>
  C7. No \<^verbatim>\<open>time_derivative\<close> reads its argument \<open>t\<close>: at two times \<open>t1\<close> and \<open>t2\<close> and
  the same \<open>x\<close>, the method returns the same result and leaves the same module, for
  \<^verbatim>\<open>HNN\<close> in every configuration, \<^verbatim>\<open>HNN_structure\<close> and \<^verbatim>\<open>HNN_structure_pend\<close>.
\<close>

theorem time_derivative_time_independent:
  "HNN_time_derivative grad self t1 x = HNN_time_derivative grad self t2 x \<and>
   HNN_structure_time_derivative grad self' t1 x = HNN_structure_time_derivative grad self' t2 x \<and>
   HNN_structure_pend_time_derivative grad torch_inverse self'' t1 x =
     HNN_structure_pend_time_derivative grad torch_inverse self'' t2 x"
  by (simp add: HNN_time_derivative_def HNN_structure_time_derivative_def
      HNN_structure_pend_time_derivative_def)

text \<open>
  C8. After a call of \<^verbatim>\<open>time_derivative\<close>, whether it returns or raises, the module is
  the one before the call with \<^verbatim>\<open>nfe\<close> increased by 1, in each of the three classes;
  \<^verbatim>\<open>forward\<close>, \<^verbatim>\<open>Hamiltonian_vector\<close>, \<^verbatim>\<open>permutation_tensor\<close> and \<^verbatim>\<open>get_jacobian\<close> leave
  the module as it was.
\<close>

theorem nfe_counts_time_derivative_calls:
  "snd (HNN_time_derivative grad self t x) = self \<lparr> nfe := nfe self + 1 \<rparr> \<and>
   snd (HNN_structure_time_derivative grad self' t x) = self' \<lparr> nfe := nfe self' + 1 \<rparr> \<and>
   snd (HNN_structure_pend_time_derivative grad torch_inverse self'' t x) =
     self'' \<lparr> nfe := nfe self'' + 1 \<rparr> \<and>
   snd (HNN_forward self x) = self \<and>
   snd (HNN_structure_forward self' x) = self' \<and>
   snd (HNN_structure_pend_forward self'' x) = self'' \<and>
   snd (HNN_Hamiltonian_vector grad self x) = self \<and>
   snd (permutation_tensor self n) = self \<and>
   snd (permutation_tensor self' n) = self' \<and>
   snd (permutation_tensor self'' n) = self'' \<and>
   snd (get_jacobian grad self'' y output) = self''"
proof -
  have 1: "snd (HNN_forward self x) = self"
    by (simp add: HNN_forward_def)
  have 2: "snd (HNN_structure_forward self' x) = self'"
    by (simp add: HNN_structure_forward_def)
  have 3: "snd (HNN_structure_pend_forward self'' x) = self''"
    by (simp add: HNN_structure_pend_forward_def)
  have 4: "snd (HNN_time_derivative grad self t x) = self \<lparr> nfe := nfe self + 1 \<rparr>"
    by (simp add: HNN_time_derivative_def HNN_forward_def Let_def)
  have 5: "snd (HNN_structure_time_derivative grad self' t x) = self' \<lparr> nfe := nfe self' + 1 \<rparr>"
    by (simp add: HNN_structure_time_derivative_def HNN_structure_forward_def Let_def)
  have 6: "snd (HNN_structure_pend_time_derivative grad torch_inverse self'' t x) =
      self'' \<lparr> nfe := nfe self'' + 1 \<rparr>"
    by (simp add: HNN_structure_pend_time_derivative_def time_derivative_locals_def
        get_jacobian_def Let_def split: option.splits prod.splits)
  have 7: "snd (HNN_Hamiltonian_vector grad self x) = self"
    by (simp add: HNN_Hamiltonian_vector_def HNN_forward_def)
  have 8: "snd (get_jacobian grad self'' y output) = self''"
    by (simp add: get_jacobian_def)
  show ?thesis
    using 1 2 3 4 5 6 7 8 by (simp add: permutation_tensor_self)
qed

subsection \<open>The Hamiltonian of \<^verbatim>\<open>HNN_structure\<close>\<close>

text \<open>
  C4. \<^verbatim>\<open>HNN_structure.forward(x)\<close>, with \<open>x\<close> cut into \<open>q\<close> and \<open>p\<close>, returns the kinetic
  term \<open>p * p / (2 * (L_net(q) * L_net(q) + 0.1))\<close> plus the potential term \<open>V_net(q)\<close>:
  the kinetic term is computed from \<open>p * p\<close> and the mass term alone, the mass term and
  the potential term from \<open>q\<close> alone. Both sides raise on the same inputs.
\<close>

theorem HNN_structure_forward_decomposes:
  "fst (HNN_structure_forward self x) = HNN_structure_forward_spec self x"
  by (simp add: HNN_structure_forward_def HNN_structure_forward_spec_def H_of_def M_q_of_def
      kinetic_spec_eq mul_def broadcast_self split: prod.splits cong: Option.bind_cong)

theorem HNN_structure_forward_decomposes_witness:
  "fst (HNN_structure_forward ex_structure (of_mat [[2, 3]])) = Some (of_mat [[689 / 161]]) \<and>
   HNN_structure_forward_spec ex_structure (of_mat [[2, 3]]) = Some (of_mat [[689 / 161]])"
proof -
  have "HNN_structure_forward_spec ex_structure (of_mat [[2, 3]]) = Some (of_mat [[689 / 161]])"
    by (simp add: HNN_structure_forward_spec_def kinetic_spec_def ex_structure_def chunk2_def
        of_mat_def of_vec_def energy_net_def mul_def add_def div_t_def)
  then show ?thesis
    using HNN_structure_forward_decomposes [of ex_structure "of_mat [[2, 3]]"] by simp
qed

text \<open>
  C9. Whatever \<^verbatim>\<open>L_net\<close> returns, \<^verbatim>\<open>M_q = L * L + 0.1\<close> is computed without an error,
  entry by entry from \<open>L\<close>, and every entry of it is at least \<open>0.1\<close> and positive; this
  \<open>M_q\<close> is the divisor in the Hamiltonian that \<^verbatim>\<open>forward\<close> returns.
\<close>

theorem M_q_positive:
  assumes "chunk2 x = Some (q, p)" and "L_net self q = Some L"
  shows "\<exists>M_q. M_q_of L = Some M_q \<and> M_q = tmap (\<lambda>l. l * l + 0.1) L \<and>
     list_all (\<lambda>m. 0.1 \<le> m \<and> 0 < m) (entries M_q) \<and>
     fst (HNN_structure_forward self x) = do { V_q \<leftarrow> HNN_structure.V_net self q; H_of p M_q V_q }"
proof -
  have "0.1 \<le> l * l + 0.1 \<and> 0 < l * l + 0.1" for l :: real
  proof -
    have "0 \<le> l * l" by simp
    then show ?thesis by arith
  qed
  then have "list_all (\<lambda>m. 0.1 \<le> m \<and> 0 < m) (entries (tmap (\<lambda>l. l * l + 0.1) L))"
    by (simp add: entries_tmap list_all_iff)
  then show ?thesis
    using assms by (simp add: M_q_of_eq HNN_structure_forward_def)
qed

theorem M_q_positive_witness:
  "chunk2 (of_mat [[2, 3]]) = Some (of_mat [[2]], of_mat [[3]]) \<and>
   L_net ex_structure (of_mat [[2]]) = Some (of_mat [[4]]) \<and>
   M_q_of (of_mat [[4]]) = Some (of_mat [[161 / 10]]) \<and>
   fst (HNN_structure_forward ex_structure (of_mat [[2, 3]])) = Some (of_mat [[689 / 161]])"
proof -
  have c: "chunk2 (of_mat [[2, 3]]) = Some (of_mat [[2]], of_mat [[3]])"
    by (simp add: chunk2_def of_mat_def of_vec_def)
  have l: "L_net ex_structure (of_mat [[2]]) = Some (of_mat [[4]])"
    by (simp add: ex_structure_def energy_net_def of_mat_def of_vec_def)
  from M_q_positive [OF c l]
  have "fst (HNN_structure_forward ex_structure (of_mat [[2, 3]])) =
      do { V_q \<leftarrow> HNN_structure.V_net ex_structure (of_mat [[2]]);
           H_of (of_mat [[3]]) (tmap (\<lambda>l. l * l + 0.1) (of_mat [[4]])) V_q }"
    and "M_q_of (of_mat [[4]]) = Some (tmap (\<lambda>l. l * l + 0.1) (of_mat [[4]]))"
    by auto
  then show ?thesis
    using c l
    by (simp add: ex_structure_def energy_net_def of_mat_def of_vec_def H_of_def
        mul_def add_def div_t_def)
qed

subsection \<open>One value for each state\<close>

text \<open>
  C3, as the code has it. \<^verbatim>\<open>HNN.forward\<close> returns what the model returns, unchanged and
  unchecked. \<^verbatim>\<open>HNN_structure.forward\<close> on \<open>n\<close> states of \<open>d\<close> positions and \<open>d\<close> momenta
  each, with networks that return an \<open>n\<close> by 1 matrix, returns an \<open>n\<close> by \<open>d\<close> matrix: one
  value for each state and each momentum coordinate, which is one value for each state
  exactly when \<open>d = 1\<close>.
\<close>

theorem forward_one_scalar_per_row:
  "fst (HNN_forward self x) = differentiale_model self x \<and>
   (is_matrix n (2 * d) X \<and> 0 < n \<and> 0 < d \<and>
    L_net self' (of_mat (map (take d) X)) = Some (of_mat L) \<and> is_matrix n 1 L \<and>
    HNN_structure.V_net self' (of_mat (map (take d) X)) = Some (of_mat V) \<and> is_matrix n 1 V \<longrightarrow>
    (\<exists>Hm. fst (HNN_structure_forward self' (of_mat X)) = Some (of_mat Hm) \<and> is_matrix n d Hm \<and>
       (\<forall>i<n. \<forall>j<d. Hm ! i ! j =
          X ! i ! (d + j) * X ! i ! (d + j) / (hd (L ! i) * hd (L ! i) + 0.1) / 2 + hd (V ! i)) \<and>
       (one_scalar_per_row (of_mat X) (of_mat Hm) \<longleftrightarrow> d = 1)))"
proof (intro conjI impI)
  show "fst (HNN_forward self x) = differentiale_model self x"
    by (simp add: HNN_forward_def)
next
  assume h: "is_matrix n (2 * d) X \<and> 0 < n \<and> 0 < d \<and>
    L_net self' (of_mat (map (take d) X)) = Some (of_mat L) \<and> is_matrix n 1 L \<and>
    HNN_structure.V_net self' (of_mat (map (take d) X)) = Some (of_mat V) \<and> is_matrix n 1 V"
  then have X: "is_matrix n (2 * d) X" and pos: "0 < n" "0 < d"
    and L: "L_net self' (of_mat (map (take d) X)) = Some (of_mat L)" "is_matrix n 1 L"
    and V: "HNN_structure.V_net self' (of_mat (map (take d) X)) = Some (of_mat V)" "is_matrix n 1 V"
    by simp_all
  from HNN_structure_forward_matrix [OF X pos L V]
  obtain Hm where fw: "fst (HNN_structure_forward self' (of_mat X)) = Some (of_mat Hm)"
    and Hm: "is_matrix n d Hm"
    and ent: "\<forall>i<n. \<forall>j<d. Hm ! i ! j =
       X ! i ! (d + j) * X ! i ! (d + j) / (hd (L ! i) * hd (L ! i) + 0.1) / 2 + hd (V ! i)"
    by blast
  show "\<exists>Hm. fst (HNN_structure_forward self' (of_mat X)) = Some (of_mat Hm) \<and> is_matrix n d Hm \<and>
       (\<forall>i<n. \<forall>j<d. Hm ! i ! j =
          X ! i ! (d + j) * X ! i ! (d + j) / (hd (L ! i) * hd (L ! i) + 0.1) / 2 + hd (V ! i)) \<and>
       (one_scalar_per_row (of_mat X) (of_mat Hm) \<longleftrightarrow> d = 1)"
    using fw Hm ent one_scalar_per_row_matrix [OF X Hm pos(1)] by blast
qed

theorem forward_one_scalar_per_row_witness:
  "is_matrix 2 (2 * 1) [[2, 3], [1, 2]] \<and>
   L_net ex_structure (of_mat [[2], [1]]) = Some (of_mat [[4], [1]]) \<and>
   HNN_structure.V_net ex_structure (of_mat [[2], [1]]) = Some (of_mat [[4], [1]]) \<and>
   fst (HNN_structure_forward ex_structure (of_mat [[2, 3], [1, 2]])) =
     Some (of_mat [[689 / 161], [31 / 11]]) \<and>
   one_scalar_per_row (of_mat [[2, 3], [1, 2]]) (of_mat [[689 / 161], [31 / 11]]) \<and>
   fst (HNN_forward ex_hnn (of_mat [[3, 4], [1, 2]])) = Some (of_mat [[25], [5]]) \<and>
   one_scalar_per_row (of_mat [[3, 4], [1, 2]]) (of_mat [[25], [5]])"
proof -
  have X: "is_matrix 2 (2 * 1) [[2, 3], [1, 2]]" and M: "is_matrix 2 1 [[4], [1]]"
    by (simp_all add: is_matrix_def)
  have L: "L_net ex_structure (of_mat (map (take 1) [[2, 3], [1, 2]])) = Some (of_mat [[4], [1]])"
    by (simp add: ex_structure_def energy_net_def of_mat_def of_vec_def)
  have V: "HNN_structure.V_net ex_structure (of_mat (map (take 1) [[2, 3], [1, 2]])) =
      Some (of_mat [[4], [1]])"
    by (simp add: ex_structure_def energy_net_def of_mat_def of_vec_def)
  have y: "differentiale_model ex_hnn (of_mat [[3, 4], [1, 2]]) = Some (of_mat [[25], [5]])"
    by (simp add: ex_hnn_def energy_net_def of_mat_def of_vec_def)
  have o: "one_scalar_per_row (of_mat [[3, 4], [1, 2]]) (of_mat [[25], [5]])"
    by (simp add: one_scalar_per_row_def of_mat_def of_vec_def)
  from forward_one_scalar_per_row [of ex_hnn "of_mat [[3, 4], [1, 2]]" 2 1 "[[2, 3], [1, 2]]"
      ex_structure "[[4], [1]]" "[[4], [1]]"] X L V M
  obtain Hm where "fst (HNN_forward ex_hnn (of_mat [[3, 4], [1, 2]])) =
      differentiale_model ex_hnn (of_mat [[3, 4], [1, 2]])"
    and "fst (HNN_structure_forward ex_structure (of_mat [[2, 3], [1, 2]])) = Some (of_mat Hm)"
    and "one_scalar_per_row (of_mat [[2, 3], [1, 2]]) (of_mat Hm)"
    by auto
  then show ?thesis
    using X L V y o ex_structure_forward by simp
qed

text \<open>
  C3 as stated fails for each of the three classes: \<^verbatim>\<open>HNN.forward\<close> with a model that
  returns its input returns two values for a state of two coordinates;
  \<^verbatim>\<open>HNN_structure.forward\<close> returns two values for a state of two positions and two
  momenta; \<^verbatim>\<open>HNN_structure_pend.forward\<close> returns 27 values for a batch of three states.
\<close>

theorem forward_one_scalar_per_row_counterexample:
  "fst (HNN_forward (ex_hnn \<lparr> differentiale_model := Some \<rparr>) (of_mat [[3, 4]])) =
     Some (of_mat [[3, 4]]) \<and>
   \<not> one_scalar_per_row (of_mat [[3, 4]]) (of_mat [[3, 4]]) \<and>
   L_net ex_structure (of_mat [[1, 2]]) = Some (of_mat [[5]]) \<and>
   HNN_structure.V_net ex_structure (of_mat [[1, 2]]) = Some (of_mat [[5]]) \<and>
   fst (HNN_structure_forward ex_structure (of_mat [[1, 2, 3, 4]])) =
     Some (of_mat [[1300 / 251, 1335 / 251]]) \<and>
   \<not> one_scalar_per_row (of_mat [[1, 2, 3, 4]]) (of_mat [[1300 / 251, 1335 / 251]]) \<and>
   fst (HNN_structure_pend_forward ex2_pend ex2_x) =
     Some (batch [[[10, 8, 8], [3, 5, 3], [5, 5, 5]], [[10, 8, 8], [3, 5, 3], [5, 5, 5]],
                  [[10, 8, 8], [3, 5, 3], [5, 5, 5]]]) \<and>
   \<not> one_scalar_per_row ex2_x
       (batch [[[10, 8, 8], [3, 5, 3], [5, 5, 5]], [[10, 8, 8], [3, 5, 3], [5, 5, 5]],
               [[10, 8, 8], [3, 5, 3], [5, 5, 5]]])"
proof -
  have "fst (HNN_forward (ex_hnn \<lparr> differentiale_model := Some \<rparr>) (of_mat [[3, 4]])) =
     Some (of_mat [[3, 4]])"
    by (simp add: HNN_forward_def)
  moreover have "\<not> one_scalar_per_row (of_mat [[3, 4]]) (of_mat [[3, 4]])"
    by (simp add: one_scalar_per_row_def of_mat_def of_vec_def)
  moreover have "L_net ex_structure (of_mat [[1, 2]]) = Some (of_mat [[5]])"
    and "HNN_structure.V_net ex_structure (of_mat [[1, 2]]) = Some (of_mat [[5]])"
    by (simp_all add: ex_structure_def energy_net_def of_mat_def of_vec_def)
  moreover have "\<not> one_scalar_per_row (of_mat [[1, 2, 3, 4]]) (of_mat [[1300 / 251, 1335 / 251]])"
    by (simp add: one_scalar_per_row_def of_mat_def of_vec_def)
  moreover have "\<not> one_scalar_per_row ex2_x
       (batch [[[10, 8, 8], [3, 5, 3], [5, 5, 5]], [[10, 8, 8], [3, 5, 3], [5, 5, 5]],
               [[10, 8, 8], [3, 5, 3], [5, 5, 5]]])"
    by (simp add: one_scalar_per_row_def ex2_x_def batch_def of_mat_def of_vec_def)
  ultimately show ?thesis
    using ex_structure_forward_wide ex2_forward by simp
qed

subsection \<open>The permutation tensor in canonical coordinates\<close>

text \<open>
  C6. With \<^verbatim>\<open>assume_canonical_coords=True\<close> and an even \<open>n = 2 * d\<close>,
  \<^verbatim>\<open>permutation_tensor(n)\<close> returns the canonical symplectic matrix \<open>[[0, I], [-I, 0]]\<close>.
  It is a signed permutation matrix, its transpose is its negative, and its product with
  its transpose is the identity; \<^verbatim>\<open>M.t()\<close> returns \<open>-M\<close>, and for \<open>0 < d\<close>
  \<^verbatim>\<open>torch.matmul(M, M.t())\<close> returns \<^verbatim>\<open>torch.eye(n)\<close>.
\<close>

theorem permutation_tensor_canonical:
  assumes "assume_canonical_coords self"
  shows "\<exists>P. fst (permutation_tensor self (2 * int d)) = Some P \<and>
      P = of_mat (canonical_symplectic d) \<and>
      signed_permutation (canonical_symplectic d) \<and>
      transpose (canonical_symplectic d) = map (map uminus) (canonical_symplectic d) \<and>
      mm (canonical_symplectic d) (transpose (canonical_symplectic d)) = identity_matrix (2 * d) \<and>
      torch_t P = Some (neg P) \<and>
      (0 < d \<longrightarrow> matmul P (neg P) = Some (eye (2 * d)))"
proof -
  let ?J = "canonical_symplectic d"
  have t: "torch_t (of_mat ?J) = Some (neg (of_mat ?J))"
  proof (cases "d = 0")
    case True
    then show ?thesis
      by (simp add: canonical_symplectic_def of_mat_def torch_t_def neg_def)
  next
    case False
    then show ?thesis
      using torch_t_of_mat [OF canonical_nonempty canonical_rect, of d]
      by (simp add: canonical_transpose neg_of_mat)
  qed
  have m: "matmul (of_mat ?J) (neg (of_mat ?J)) = Some (eye (2 * d))" if "0 < d"
  proof -
    have ne: "map (map uminus) ?J \<noteq> []"
      using canonical_nonempty [OF that] by simp
    have rect: "list_all (\<lambda>r. length r = length (hd (map (map uminus) ?J))) (map (map uminus) ?J)"
      using canonical_hd_length [OF that] canonical_nonempty [OF that] canonical_row_length [of _ d]
      by (simp add: list_all_iff hd_map)
    have len: "length (hd ?J) = length (map (map uminus) ?J)"
      using canonical_hd_length [OF that] by (simp add: canonical_length)
    show ?thesis
      using matmul_of_mat [OF canonical_nonempty [OF that] canonical_rect ne rect len]
        canonical_orthogonal [of d]
      by (simp add: neg_of_mat canonical_transpose eye_of_mat)
  qed
  show ?thesis
  proof (intro exI conjI impI)
    show "fst (permutation_tensor self (2 * int d)) = Some (of_mat ?J)"
      by (rule permutation_tensor_canonical_eq [OF assms])
    show "of_mat ?J = of_mat ?J" ..
    show "signed_permutation ?J"
      by (rule canonical_signed_permutation)
    show "transpose ?J = map (map uminus) ?J"
      by (rule canonical_transpose)
    show "mm ?J (transpose ?J) = identity_matrix (2 * d)"
      by (rule canonical_orthogonal)
    show "torch_t (of_mat ?J) = Some (neg (of_mat ?J))"
      by (rule t)
    show "matmul (of_mat ?J) (neg (of_mat ?J)) = Some (eye (2 * d))" if "0 < d"
      using that by (rule m)
  qed
qed

theorem permutation_tensor_canonical_witness:
  "assume_canonical_coords ex_hnn \<and>
   fst (permutation_tensor ex_hnn 2) = Some (of_mat [[0, 1], [- 1, 0]]) \<and>
   canonical_symplectic 1 = [[0, 1], [- 1, 0]] \<and>
   signed_permutation [[0, 1], [- 1, 0]] \<and>
   torch_t (of_mat [[0, 1], [- 1, 0]]) = Some (of_mat [[0, - 1], [1, 0]]) \<and>
   matmul (of_mat [[0, 1], [- 1, 0]]) (of_mat [[0, - 1], [1, 0]]) = Some (of_mat [[1, 0], [0, 1]])"
proof -
  have a: "assume_canonical_coords ex_hnn"
    by (simp add: ex_hnn_def)
  have c: "canonical_symplectic 1 = [[0, 1], [- 1, 0]]"
    by (simp add: canonical_symplectic_def upt_rec numeral_2_eq_2)
  have n: "neg (of_mat [[0, 1], [- 1, 0]]) = of_mat [[0, - 1], [1, 0]]"
    by (simp add: neg_def of_mat_def of_vec_def)
  have e': "eye (2 * 1) = of_mat [[1, 0], [0, 1]]"
    by (simp add: eye_def of_mat_def of_vec_def upt_rec numeral_2_eq_2)
  have e: "eye 2 = of_mat [[1, 0], [0, 1]]"
    by (simp add: eye_def of_mat_def of_vec_def upt_rec numeral_2_eq_2)
  have c': "canonical_symplectic (Suc 0) = [[0, 1], [- 1, 0]]"
    using c by simp
  from permutation_tensor_canonical [OF a, of 1]
  have 1: "fst (permutation_tensor ex_hnn (2 * int 1)) = Some (of_mat (canonical_symplectic 1))"
    and 2: "signed_permutation (canonical_symplectic 1)"
    and 3: "torch_t (of_mat (canonical_symplectic 1)) = Some (neg (of_mat (canonical_symplectic 1)))"
    and 4: "matmul (of_mat (canonical_symplectic 1)) (neg (of_mat (canonical_symplectic 1))) =
      Some (eye (2 * 1))"
    by simp_all
  have 1: "fst (permutation_tensor ex_hnn 2) = Some (of_mat [[0, 1], [- 1, 0]])"
    using 1 unfolding c by simp
  show ?thesis
    using a 1 2 3 4 unfolding c n e' by simp
qed

subsection \<open>The Hamiltonian that \<^verbatim>\<open>HNN_structure_pend.time_derivative\<close> differentiates\<close>

text \<open>
  C2 fails on a module whose mass network returns twice the identity, on a batch of three
  states. \<^verbatim>\<open>forward\<close> returns a 3 by 3 by 3 tensor, and the gradient of its sum differs from
  the gradient \<open>dH\<close> that \<^verbatim>\<open>time_derivative\<close> takes, which is the gradient of the sum of the
  3 by 3 matrix that \<^verbatim>\<open>time_derivative\<close> builds with the constant \<open>diag(1, 1, 3)\<close>. Whatever
  the mass network is, also one that raises, so that \<^verbatim>\<open>forward\<close> raises,
  \<^verbatim>\<open>time_derivative\<close> returns the same vector field: it never calls \<^verbatim>\<open>M_net\<close>.
\<close>

theorem time_derivative_ignores_M_net:
  "M_net ex2_pend = double_M_net \<and>
   fst (HNN_structure_pend_forward ex2_pend ex2_x) =
     Some (batch [[[10, 8, 8], [3, 5, 3], [5, 5, 5]], [[10, 8, 8], [3, 5, 3], [5, 5, 5]],
            [[10, 8, 8], [3, 5, 3], [5, 5, 5]]]) \<and>
   central_difference_grad (\<lambda>y. map_option tsum (fst (HNN_structure_pend_forward ex2_pend y))) ex2_x =
     Some (of_mat [[9, 9, 9, 12, 12, 12], [9, 9, 9, 36, 36, 36], [9, 9, 9, 12, 12, 12]]) \<and>
   time_derivative_H ex2_pend ex2_x = Some (of_mat [[7, 11, 7], [2, 6, 2], [4, 8, 4]]) \<and>
   central_difference_grad (\<lambda>y. map_option tsum (time_derivative_H ex2_pend y)) ex2_x =
     Some (of_mat [[3, 3, 3, 6, 0, 0], [3, 3, 3, 6, 6, 18], [3, 3, 3, 0, 6, 0]]) \<and>
   fst (time_derivative_locals central_difference_grad batch_inverse_2x2 ex2_pend ex2_x) =
     Some ex2_locals \<and>
   chunk2 (of_mat [[3, 3, 3, 6, 0, 0], [3, 3, 3, 6, 6, 18], [3, 3, 3, 0, 6, 0]]) =
     Some (dHdq ex2_locals, dHdp ex2_locals) \<and>
   fst (HNN_structure_pend_forward (ex2_pend \<lparr> M_net := \<lambda>q. None \<rparr>) ex2_x) = None \<and>
   (\<forall>N. fst (HNN_structure_pend_time_derivative central_difference_grad batch_inverse_2x2
               (ex2_pend \<lparr> M_net := N \<rparr>) (0::real) ex2_x) =
     Some (of_mat [[6, 0, 0, - 68 / 55, - 122 / 55, 18 / 55], [6, 6, 18, - 248 / 15, - 62 / 15, - 62 / 15],
             [0, 6, 0, - 17 / 12, - 5 / 12, 1 / 6]]))"
proof -
  have 1: "fst (HNN_structure_pend_forward (ex2_pend \<lparr> M_net := \<lambda>q. None \<rparr>) ex2_x) = None"
    by (simp add: HNN_structure_pend_forward_def split: Option.bind_splits)
  have 2: "M_net ex2_pend = double_M_net"
    by (simp add: ex2_pend_def)
  show ?thesis
    using 1 2 ex2_forward ex2_forward_grad ex2_H ex2_dH ex2_locals_eq ex2_chunk_dH
      ex2_time_derivative_value [of "0::real"]
    by (simp add: time_derivative_M_net ex2_dH_val_def)
qed

subsection \<open>The Lagrange multiplier of \<^verbatim>\<open>HNN_structure_pend\<close>\<close>

text \<open>
  C5, as the code has it. When \<^verbatim>\<open>time_derivative\<close> reaches its \<^verbatim>\<open>return\<close>, it returns the
  sum of the Hamiltonian vector field and the constraint-force vector field, and its local
  variables are related as follows. \<open>M_q_inv\<close> is the tensor that the method builds for the
  batch size of \<open>x\<close>; \<open>A_q = A_net(q)\<close> and \<open>A_T_q\<close> is its transpose; \<open>dHdq\<close> and \<open>dHdp\<close> are
  the halves of the gradient \<open>dH\<close> that the method takes of the sum of its own \<open>H\<close>; the
  Jacobian is that of \<^verbatim>\<open>get_jacobian\<close> on \<open>A_T_q M_q_inv p\<close>. With these,
  \<open>LHS = A_T_q M_q_inv A_q\<close>; the matrix that is inverted is \<open>LHS' = LHS + 0.1\<close> in every
  entry; \<open>RHS = A_T_q M_q_inv dHdq - dA_T_M_inv_p_dq dHdp\<close>; \<open>lambd\<close> is
  \<^verbatim>\<open>torch.inverse(LHS')\<close> times \<open>RHS\<close>, so that \<open>LHS' lambd = RHS\<close> whenever \<^verbatim>\<open>torch.inverse\<close>
  returned a right inverse of a batch of square matrices; and the constraint force is
  \<open>A_q lambd\<close>, squeezed, behind as many zeros.
\<close>

theorem lambd_solves_regularised_equation:
  assumes "fst (time_derivative_locals grad torch_inverse self x) = Some l"
  shows "fst (HNN_structure_pend_time_derivative grad torch_inverse self t x) =
      add (H_vector_field l) (con_force_vector_field l) \<and>
    (\<exists>bs. shape0 x = Some bs \<and> M_q_inv_of bs = Some (M_q_inv l)) \<and>
    LHS_of (A_T_q l) (M_q_inv l) (A_q l) = Some (LHS l) \<and>
    LHS' l = tmap (\<lambda>a. a + 0.1) (LHS l) \<and>
    RHS_of (A_T_q l) (M_q_inv l) (dHdq l) (dHdp l) (dA_T_M_inv_p_dq l) = Some (RHS l) \<and>
    (\<exists>q p. chunk2 x = Some (q, p) \<and> A_net self q = Some (A_q l) \<and>
       transpose12 (A_q l) = Some (A_T_q l) \<and>
       fst (get_jacobian grad self q (A_T_M_inv_p_of self p (M_q_inv l))) =
         Some (dA_T_M_inv_p_dq l)) \<and>
    (\<exists>dH. grad (\<lambda>y. map_option tsum (time_derivative_H self y)) x = Some dH \<and>
       chunk2 dH = Some (dHdq l, dHdp l)) \<and>
    (\<exists>LHS_inv. torch_inverse (LHS' l) = Some LHS_inv \<and>
       matmul LHS_inv (RHS l) = Some (lambd l) \<and>
       (\<forall>Ls Is Rs n k m.
          LHS' l = batch Ls \<and> LHS_inv = batch Is \<and> RHS l = batch Rs \<and>
          is_batch n k k Ls \<and> is_batch n k k Is \<and> is_batch n k m Rs \<and> 0 < n \<and> 0 < k \<and>
          list_all (\<lambda>(L, I). mm L I = identity_matrix k) (zip Ls Is) \<longrightarrow>
          matmul (LHS' l) (lambd l) = Some (RHS l))) \<and>
    (\<exists>Al. matmul (A_q l) (lambd l) = Some Al \<and> con_force l = squeeze Al) \<and>
    cat1 (zeros_like (con_force l)) (con_force l) = Some (con_force_vector_field l)"
proof -
  from assms obtain bs q p dH Mt Li Al where
    bs: "shape0 x = Some bs" and q: "chunk2 x = Some (q, p)"
    and Mi: "M_q_inv_of bs = Some (M_q_inv l)"
    and dH: "grad (\<lambda>y. map_option tsum (time_derivative_H self y)) x = Some dH"
    and "torch_t (M self) = Some Mt" "matmul dH Mt = Some (H_vector_field l)"
    and ch: "chunk2 dH = Some (dHdq l, dHdp l)"
    and A: "A_net self q = Some (A_q l)" "transpose12 (A_q l) = Some (A_T_q l)"
    and J: "fst (get_jacobian grad self q (A_T_M_inv_p_of self p (M_q_inv l))) =
      Some (dA_T_M_inv_p_dq l)"
    and rhs: "RHS_of (A_T_q l) (M_q_inv l) (dHdq l) (dHdp l) (dA_T_M_inv_p_dq l) = Some (RHS l)"
    and lhs: "LHS_of (A_T_q l) (M_q_inv l) (A_q l) = Some (LHS l)"
    and lhs': "LHS_plus (LHS l) = Some (LHS' l)"
    and inv: "torch_inverse (LHS' l) = Some Li" and lam: "matmul Li (RHS l) = Some (lambd l)"
    and Al: "matmul (A_q l) (lambd l) = Some Al" "con_force l = squeeze Al"
    and cf: "cat1 (zeros_like (con_force l)) (con_force l) = Some (con_force_vector_field l)"
    by (rule time_derivative_locals_SomeD)
  have td: "fst (HNN_structure_pend_time_derivative grad torch_inverse self t x) =
      add (H_vector_field l) (con_force_vector_field l)"
    using assms by (simp add: time_derivative_fst)
  have reg: "LHS' l = tmap (\<lambda>a. a + 0.1) (LHS l)"
    using lhs' by (simp add: LHS_plus_eq)
  have solve: "matmul (LHS' l) (lambd l) = Some (RHS l)"
    if "LHS' l = batch Ls \<and> Li = batch Is \<and> RHS l = batch Rs \<and>
        is_batch n k k Ls \<and> is_batch n k k Is \<and> is_batch n k m Rs \<and> 0 < n \<and> 0 < k \<and>
        list_all (\<lambda>(L, I). mm L I = identity_matrix k) (zip Ls Is)" for Ls Is Rs n k m
  proof -
    have "matmul (batch Is) (batch Rs) = Some (lambd l)"
      using lam that by simp
    then have "matmul (batch Ls) (lambd l) = Some (batch Rs)"
      using that by (intro batch_solve [of n k Ls Is m Rs]) simp_all
    then show ?thesis using that by simp
  qed
  have inv': "\<exists>LHS_inv. torch_inverse (LHS' l) = Some LHS_inv \<and>
       matmul LHS_inv (RHS l) = Some (lambd l) \<and>
       (\<forall>Ls Is Rs n k m.
          LHS' l = batch Ls \<and> LHS_inv = batch Is \<and> RHS l = batch Rs \<and>
          is_batch n k k Ls \<and> is_batch n k k Is \<and> is_batch n k m Rs \<and> 0 < n \<and> 0 < k \<and>
          list_all (\<lambda>(L, I). mm L I = identity_matrix k) (zip Ls Is) \<longrightarrow>
          matmul (LHS' l) (lambd l) = Some (RHS l))"
    using inv lam solve by blast
  show ?thesis
    using td bs Mi lhs reg rhs q A J dH ch inv' Al cf by blast
qed

theorem lambd_solves_regularised_equation_witness:
  "fst (time_derivative_locals central_difference_grad batch_inverse_2x2 ex2_pend ex2_x) = Some ex2_locals \<and>
   A_q ex2_locals = batch [[[1, 0], [0, 1], [1, 2]], [[1, 0], [0, 1], [0, 1]], [[1, 0], [0, 1], [2, 0]]] \<and>
   dA_T_M_inv_p_dq ex2_locals = batch [[[0, 0, 0], [0, 0, 0]], [[3, 0, 0], [0, 3, 0]], [[0, 0, 0], [0, 0, 0]]] \<and>
   LHS ex2_locals = batch [[[4, 6], [6, 13]], [[1, 0], [0, 4]], [[13, 0], [0, 1]]] \<and>
   LHS' ex2_locals =
     batch [[[41 / 10, 61 / 10], [61 / 10, 131 / 10]], [[11 / 10, 1 / 10], [1 / 10, 41 / 10]],
            [[131 / 10, 1 / 10], [1 / 10, 11 / 10]]] \<and>
   batch_inverse_2x2 (LHS' ex2_locals) = Some ex2_LHS_inv \<and>
   lambd ex2_locals = batch [[[97 / 55], [43 / 55]], [[- 203 / 15], [- 17 / 15]], [[19 / 12], [31 / 12]]] \<and>
   RHS ex2_locals = batch [[[12], [21]], [[- 15], [- 6]], [[21], [3]]] \<and>
   matmul (LHS' ex2_locals) (lambd ex2_locals) = Some (RHS ex2_locals) \<and>
   fst (HNN_structure_pend_time_derivative central_difference_grad batch_inverse_2x2 ex2_pend
          (0::real) ex2_x) =
     Some (of_mat [[6, 0, 0, - 68 / 55, - 122 / 55, 18 / 55], [6, 6, 18, - 248 / 15, - 62 / 15, - 62 / 15],
             [0, 6, 0, - 17 / 12, - 5 / 12, 1 / 6]])"
proof -
  from lambd_solves_regularised_equation [OF ex2_locals_eq, of "0::real"]
  obtain Li where Li: "batch_inverse_2x2 (LHS' ex2_locals) = Some Li"
    and td: "fst (HNN_structure_pend_time_derivative central_difference_grad batch_inverse_2x2
        ex2_pend (0::real) ex2_x) =
      add (H_vector_field ex2_locals) (con_force_vector_field ex2_locals)"
    and solve: "\<And>Ls Is Rs n k m.
          LHS' ex2_locals = batch Ls \<and> Li = batch Is \<and> RHS ex2_locals = batch Rs \<and>
          is_batch n k k Ls \<and> is_batch n k k Is \<and> is_batch n k m Rs \<and> 0 < n \<and> 0 < k \<and>
          list_all (\<lambda>(L, I). mm L I = identity_matrix k) (zip Ls Is) \<Longrightarrow>
          matmul (LHS' ex2_locals) (lambd ex2_locals) = Some (RHS ex2_locals)"
    by blast
  have Li_eq: "Li = batch [[[131 / 165, - 61 / 165], [- 61 / 165, 41 / 165]], [[41 / 45, - 1 / 45], [- 1 / 45, 11 / 45]],
            [[11 / 144, - 1 / 144], [- 1 / 144, 131 / 144]]]"
    using Li ex2_inv by (simp add: ex2_LHS_inv_def)
  have "matmul (LHS' ex2_locals) (lambd ex2_locals) = Some (RHS ex2_locals)"
    by (rule solve [of "[[[41 / 10, 61 / 10], [61 / 10, 131 / 10]], [[11 / 10, 1 / 10], [1 / 10, 41 / 10]],
            [[131 / 10, 1 / 10], [1 / 10, 11 / 10]]]"
          "[[[131 / 165, - 61 / 165], [- 61 / 165, 41 / 165]], [[41 / 45, - 1 / 45], [- 1 / 45, 11 / 45]],
            [[11 / 144, - 1 / 144], [- 1 / 144, 131 / 144]]]"
          "[[[12], [21]], [[- 15], [- 6]], [[21], [3]]]" 3 2 1])
       (simp add: ex2_LHS'_batch Li_eq ex2_RHS_batch ex2_is_inverse [simplified] is_batch_def is_matrix_def)
  then show ?thesis
    using ex2_locals_eq ex2_inv ex2_LHS'_batch ex2_RHS_batch td ex2_sum by (simp add: ex2_locals_def)
qed

text \<open>
  C5 as stated fails: on the example run the multiplier does not solve
  \<open>(A\<^sup>T M\<^sup>-\<^sup>1 A) lambd = RHS\<close>. The left side differs from the right side that the method
  computes, and also from the right side computed from the gradient of the sum of the
  three states' energies, which is a third of \<open>dH\<close>.
\<close>

theorem lambd_claimed_equation_counterexample:
  "fst (time_derivative_locals central_difference_grad batch_inverse_2x2 ex2_pend ex2_x) = Some ex2_locals \<and>
   LHS_of (A_T_q ex2_locals) (M_q_inv ex2_locals) (A_q ex2_locals) = Some (LHS ex2_locals) \<and>
   RHS_of (A_T_q ex2_locals) (M_q_inv ex2_locals) (dHdq ex2_locals) (dHdp ex2_locals)
     (dA_T_M_inv_p_dq ex2_locals) = Some (RHS ex2_locals) \<and>
   RHS ex2_locals = batch [[[12], [21]], [[- 15], [- 6]], [[21], [3]]] \<and>
   matmul (LHS ex2_locals) (lambd ex2_locals) =
     Some (batch [[[646 / 55], [1141 / 55]], [[- 203 / 15], [- 68 / 15]], [[247 / 12], [31 / 12]]]) \<and>
   matmul (LHS ex2_locals) (lambd ex2_locals) \<noteq> Some (RHS ex2_locals) \<and>
   central_difference_grad (\<lambda>y. map_option diag_sum (time_derivative_H ex2_pend y)) ex2_x =
     Some (of_mat [[1, 1, 1, 2, 0, 0], [1, 1, 1, 2, 2, 6], [1, 1, 1, 0, 2, 0]]) \<and>
   chunk2 (of_mat [[1, 1, 1, 2, 0, 0], [1, 1, 1, 2, 2, 6], [1, 1, 1, 0, 2, 0]]) =
     Some (of_mat [[1, 1, 1], [1, 1, 1], [1, 1, 1]], of_mat [[2, 0, 0], [2, 2, 6], [0, 2, 0]]) \<and>
   RHS_of (A_T_q ex2_locals) (M_q_inv ex2_locals) (of_mat [[1, 1, 1], [1, 1, 1], [1, 1, 1]])
     (of_mat [[2, 0, 0], [2, 2, 6], [0, 2, 0]]) (dA_T_M_inv_p_dq ex2_locals) =
     Some (batch [[[4], [7]], [[- 5], [- 2]], [[7], [1]]]) \<and>
   matmul (LHS ex2_locals) (lambd ex2_locals) \<noteq>
     Some (batch [[[4], [7]], [[- 5], [- 2]], [[7], [1]]])"
proof -
  have "batch [[[646 / 55], [1141 / 55]], [[- 203 / 15], [- 68 / 15]], [[247 / 12], [31 / 12]]] \<noteq>
        batch [[[12], [21]], [[- 15], [- 6]], [[21], [3]]]"
    and "batch [[[646 / 55], [1141 / 55]], [[- 203 / 15], [- 68 / 15]], [[247 / 12], [31 / 12]]] \<noteq>
        batch [[[4], [7]], [[- 5], [- 2]], [[7], [1]]]"
    by (simp_all add: batch_def of_mat_def of_vec_def)
  then show ?thesis
    using ex2_locals_eq ex2_LHS ex2_RHS ex2_RHS_batch ex2_claimed_lhs ex2_diag_grad ex2_diag_chunk
      ex2_diag_RHS
    by simp
qed

subsection \<open>The constraint force acts on the momenta only\<close>

text \<open>
  C10. When \<^verbatim>\<open>HNN_structure_pend.time_derivative\<close> reaches its \<^verbatim>\<open>return\<close>, it returns
  the sum of the Hamiltonian vector field and the constraint-force vector field, which is
  the constraint force behind a tensor of zeros of its shape. When the Hamiltonian vector
  field is an \<open>n\<close> by \<open>2 * k\<close> matrix and the constraint force an \<open>n\<close> by \<open>k\<close> matrix, the
  first half of the constraint-force vector field is that tensor of zeros, the first half
  of the result (the position dynamics) is the first half of the Hamiltonian vector field,
  and the second half is the second half of the Hamiltonian vector field plus the
  constraint force.
\<close>

theorem constraint_force_leaves_positions:
  assumes "fst (time_derivative_locals grad torch_inverse self x) = Some l"
  shows "fst (HNN_structure_pend_time_derivative grad torch_inverse self t x) =
      add (H_vector_field l) (con_force_vector_field l) \<and>
    cat1 (zeros_like (con_force l)) (con_force l) = Some (con_force_vector_field l) \<and>
    list_all (\<lambda>a. a = 0) (entries (zeros_like (con_force l))) \<and>
    (\<forall>H F n k.
       H_vector_field l = of_mat H \<and> con_force l = of_mat F \<and>
       is_matrix n (2 * k) H \<and> is_matrix n k F \<and> 0 < n \<and> 0 < k \<longrightarrow>
       chunk2 (con_force_vector_field l) = Some (zeros_like (con_force l), con_force l) \<and>
       (\<exists>r rp. fst (HNN_structure_pend_time_derivative grad torch_inverse self t x) = Some r \<and>
          chunk2 (H_vector_field l) = Some (of_mat (map (take k) H), of_mat (map (drop k) H)) \<and>
          chunk2 r = Some (of_mat (map (take k) H), rp) \<and>
          add (of_mat (map (drop k) H)) (con_force l) = Some rp))"
proof -
  have td: "fst (HNN_structure_pend_time_derivative grad torch_inverse self t x) =
      add (H_vector_field l) (con_force_vector_field l)"
    using assms by (simp add: time_derivative_fst)
  from assms have cf: "cat1 (zeros_like (con_force l)) (con_force l) = Some (con_force_vector_field l)"
    by (rule time_derivative_locals_SomeD)
  have mat: "chunk2 (con_force_vector_field l) = Some (zeros_like (con_force l), con_force l) \<and>
       (\<exists>r rp. fst (HNN_structure_pend_time_derivative grad torch_inverse self t x) = Some r \<and>
          chunk2 (H_vector_field l) = Some (of_mat (map (take k) H), of_mat (map (drop k) H)) \<and>
          chunk2 r = Some (of_mat (map (take k) H), rp) \<and>
          add (of_mat (map (drop k) H)) (con_force l) = Some rp)"
    if h: "H_vector_field l = of_mat H \<and> con_force l = of_mat F \<and>
       is_matrix n (2 * k) H \<and> is_matrix n k F \<and> 0 < n \<and> 0 < k" for H F n k
  proof -
    from h have H: "is_matrix n (2 * k) H" and F: "is_matrix n k F" and pos: "0 < n" "0 < k"
      and eq: "H_vector_field l = of_mat H" "con_force l = of_mat F"
      by simp_all
    have v: "con_force_vector_field l = of_mat (map (\<lambda>r. replicate k 0 @ r) F)"
      using cf constraint_force_matrix(1) [OF H F pos] by (simp add: eq)
    show ?thesis
      using constraint_force_matrix(2,3) [OF H F pos] by (simp add: td v eq)
  qed
  show ?thesis
    using td cf entries_zeros_like [of "con_force l"] mat by blast
qed

theorem constraint_force_leaves_positions_witness:
  "fst (time_derivative_locals central_difference_grad batch_inverse_2x2 ex_pend ex_x) = Some ex_locals \<and>
   H_vector_field ex_locals = of_mat [[4, 0, 0, - 2, - 2, - 2], [0, 4, 12, - 2, - 2, - 2]] \<and>
   con_force_vector_field ex_locals = of_mat [[0, 0, 0, 5 / 3, 5 / 3, 0], [0, 0, 0, 5 / 3, 5 / 3, 0]] \<and>
   fst (HNN_structure_pend_time_derivative central_difference_grad batch_inverse_2x2 ex_pend (0::real) ex_x) =
     Some (of_mat [[4, 0, 0, - 1 / 3, - 1 / 3, - 2], [0, 4, 12, - 1 / 3, - 1 / 3, - 2]]) \<and>
   chunk2 (H_vector_field ex_locals) =
     Some (of_mat [[4, 0, 0], [0, 4, 12]], of_mat [[- 2, - 2, - 2], [- 2, - 2, - 2]]) \<and>
   chunk2 (of_mat [[4, 0, 0, - 1 / 3, - 1 / 3, - 2], [0, 4, 12, - 1 / 3, - 1 / 3, - 2]]) =
     Some (of_mat [[4, 0, 0], [0, 4, 12]], of_mat [[- 1 / 3, - 1 / 3, - 2], [- 1 / 3, - 1 / 3, - 2]])"
proof -
  let ?H = "[[4, 0, 0, - 2, - 2, - 2], [0, 4, 12, - 2, - 2, - 2 :: real]]"
  let ?F = "[[5 / 3, 5 / 3, 0], [5 / 3, 5 / 3, 0 :: real]]"
  have hyp: "H_vector_field ex_locals = of_mat ?H \<and> con_force ex_locals = of_mat ?F \<and>
      is_matrix 2 (2 * 3) ?H \<and> is_matrix 2 3 ?F \<and> 0 < (2::nat) \<and> 0 < (3::nat)"
    by (simp add: ex_locals_def is_matrix_def)
  from constraint_force_leaves_positions [OF ex_locals_eq, of "0::real"] hyp
  obtain r rp where
    "fst (HNN_structure_pend_time_derivative central_difference_grad batch_inverse_2x2 ex_pend (0::real) ex_x) =
       add (H_vector_field ex_locals) (con_force_vector_field ex_locals)"
    and "fst (HNN_structure_pend_time_derivative central_difference_grad batch_inverse_2x2 ex_pend (0::real) ex_x) = Some r"
    and "chunk2 (H_vector_field ex_locals) = Some (of_mat (map (take 3) ?H), of_mat (map (drop 3) ?H))"
    and "chunk2 r = Some (of_mat (map (take 3) ?H), rp)"
    and "add (of_mat (map (drop 3) ?H)) (con_force ex_locals) = Some rp"
    by blast
  moreover have "add (H_vector_field ex_locals) (con_force_vector_field ex_locals) =
      Some (of_mat [[4, 0, 0, - 1 / 3, - 1 / 3, - 2], [0, 4, 12, - 1 / 3, - 1 / 3, - 2]])"
    by code_simp
  moreover have "add (of_mat (map (drop 3) ?H)) (con_force ex_locals) =
      Some (of_mat [[- 1 / 3, - 1 / 3, - 2], [- 1 / 3, - 1 / 3, - 2]])"
    by code_simp
  ultimately show ?thesis
    using ex_locals_eq by (simp add: ex_locals_def)
qed

end
